theory Spec2Isabelle
  imports Complex_Main "HOL-Library.Word"
begin

section \<open>Data model\<close>

text \<open>
  The brick cache of the GPU memory manager (GPUMemMan.cpp, GPUMemManDataStructs.cpp).
  Bytes are 8-bit words, the recency stamps are UINT64. A UINTVECTOR3 holds three
  unsigned 32-bit counts; they are kept as naturals and the wrap-around of a product
  formed in 32 or 64 bits is written out where the source forms it.
\<close>

type_synonym byte = "8 word"
type_synonym UINT64 = "64 word"
type_synonym UINTVECTOR3 = "nat \<times> nat \<times> nat"
type_synonym BrickKey = nat

text \<open>
  The Dataset collaborator, consumed through its interface only. \<open>GetBrick\<close> is
  \<open>Some bytes\<close> when the fetch succeeds (the destination vector then holds
  \<open>bytes\<close>) and \<open>None\<close> when it fails (the destination is left as it was).
\<close>

record Dataset =
  GetBrickVoxelCounts :: "BrickKey \<Rightarrow> UINTVECTOR3"
  GetBitWidth :: nat
  GetComponentCount :: nat
  GetRange :: "real \<times> real"
  IsSameEndianness :: bool
  GetBrick :: "BrickKey \<Rightarrow> byte list option"

datatype GLVolumeKind = GLVolume2DTex | GLVolume3DTex

datatype GLenum =
    GL_LUMINANCE | GL_RGB | GL_RGBA
  | GL_LUMINANCE8 | GL_RGB8 | GL_RGBA8
  | GL_LUMINANCE16 | GL_RGB16 | GL_RGBA16
  | GL_LUMINANCE32F_ARB
  | GL_UNSIGNED_BYTE | GL_UNSIGNED_SHORT | GL_FLOAT
  | GL_CLAMP | GL_CLAMP_TO_EDGE

text \<open>
  A GPU resource as the cache layer creates it: the constructor arguments of
  GLVolume2DTex / GLVolume3DTex. \<open>voxels\<close> is the buffer whose address is handed
  over (\<open>None\<close> for a null pointer).
\<close>

record GLVolume =
  kind :: GLVolumeKind
  iSizeX :: nat
  iSizeY :: nat
  iSizeZ :: nat
  internalformat :: GLenum
  format :: GLenum
  gltype :: GLenum
  iSizePerElement :: nat
  voxels :: "byte list option"
  wrap :: GLenum

record GLVolumeListElem =
  pDataset :: Dataset
  iUserCount :: nat
  m_iIntraFrameCounter :: UINT64
  m_iFrameCounter :: UINT64
  m_Key :: BrickKey
  m_bIsPaddedToPowerOfTwo :: bool
  m_bIsDownsampledTo8Bits :: bool
  m_bDisableBorder :: bool
  m_bEmulate3DWith2DStacks :: bool
  m_bUsingHub :: bool
  vData :: "byte list"
  volumes :: "GLVolume option list"

section \<open>Recency-based matching\<close>

definition Match :: "GLVolumeListElem \<Rightarrow> UINTVECTOR3 \<Rightarrow> bool" where
  "Match e vDimension =
     (if volumes e = [] then False
      else (case (GetBrickVoxelCounts (pDataset e) (m_Key e), vDimension) of
              ((s0, s1, s2), (d0, d1, d2)) \<Rightarrow>
                if s0 \<noteq> d0 then False
                else if s1 \<noteq> d1 then False
                else if s2 \<noteq> d2 then False
                else True))"

text \<open>
  \<open>BestMatch\<close> takes the two counters by reference; the model returns them
  after the call, as \<open>(result, iIntraFrameCounter, iFrameCounter)\<close>.
\<close>

definition BestMatch ::
  "GLVolumeListElem \<Rightarrow> UINTVECTOR3 \<Rightarrow> bool \<Rightarrow> bool \<Rightarrow> bool \<Rightarrow> bool \<Rightarrow>
   UINT64 \<Rightarrow> UINT64 \<Rightarrow> bool \<times> UINT64 \<times> UINT64" where
  "BestMatch e vDimension bIsPaddedToPowerOfTwo bIsDownsampledTo8Bits bDisableBorder
     bEmulate3DWith2DStacks iIntraFrameCounter iFrameCounter =
     (if \<not> Match e vDimension \<or> iUserCount e > 0
         \<or> m_bIsPaddedToPowerOfTwo e \<noteq> bIsPaddedToPowerOfTwo
         \<or> m_bIsDownsampledTo8Bits e \<noteq> bIsDownsampledTo8Bits
         \<or> m_bDisableBorder e \<noteq> bDisableBorder
         \<or> m_bEmulate3DWith2DStacks e \<noteq> bEmulate3DWith2DStacks
      then (False, iIntraFrameCounter, iFrameCounter)
      else if iFrameCounter > m_iFrameCounter e
      then (True, m_iIntraFrameCounter e, m_iFrameCounter e)
      else if iFrameCounter = m_iFrameCounter e \<and> iIntraFrameCounter < m_iIntraFrameCounter e
      then (True, m_iIntraFrameCounter e, m_iFrameCounter e)
      else (False, iIntraFrameCounter, iFrameCounter))"

definition Access :: "GLVolumeListElem \<Rightarrow> UINT64 \<Rightarrow> UINT64 \<Rightarrow> GLVolume option \<times> GLVolumeListElem" where
  "Access e iIntraFrameCounter iFrameCounter =
     (volumes e ! 0,
      e\<lparr>m_iIntraFrameCounter := iIntraFrameCounter,
        m_iFrameCounter := iFrameCounter,
        iUserCount := iUserCount e + 1\<rparr>)"

text \<open>
  Modelled from the spec: the manager's loop that runs the best-match search is not
  under src/. It is the iteration of \<open>BestMatch\<close> over the entry list, in list
  order, threading the two counters through the calls and remembering the index of the
  last entry for which \<open>BestMatch\<close> returned true. The counters the loop starts
  from are parameters.
\<close>

fun BestMatchSearch ::
  "UINTVECTOR3 \<Rightarrow> bool \<Rightarrow> bool \<Rightarrow> bool \<Rightarrow> bool \<Rightarrow> nat \<Rightarrow> GLVolumeListElem list \<Rightarrow>
   nat option \<times> UINT64 \<times> UINT64 \<Rightarrow> nat option \<times> UINT64 \<times> UINT64" where
  "BestMatchSearch vDim p d b s k [] st = st"
| "BestMatchSearch vDim p d b s k (e # es) (best, iIntra, iFrame) =
     (case BestMatch e vDim p d b s iIntra iFrame of
        (True, iIntra', iFrame') \<Rightarrow> BestMatchSearch vDim p d b s (Suc k) es (Some k, iIntra', iFrame')
      | (False, iIntra', iFrame') \<Rightarrow> BestMatchSearch vDim p d b s (Suc k) es (best, iIntra', iFrame'))"

text \<open>An entry the search may take: same shape, same format flags, not in use.\<close>

definition replaceable ::
  "UINTVECTOR3 \<Rightarrow> bool \<Rightarrow> bool \<Rightarrow> bool \<Rightarrow> bool \<Rightarrow> GLVolumeListElem \<Rightarrow> bool" where
  "replaceable vDim p d b s e =
     (Match e vDim \<and> iUserCount e = 0
      \<and> m_bIsPaddedToPowerOfTwo e = p \<and> m_bIsDownsampledTo8Bits e = d
      \<and> m_bDisableBorder e = b \<and> m_bEmulate3DWith2DStacks e = s)"

text \<open>
  The order the two comparisons of \<open>BestMatch\<close> induce on pairs
  \<open>(frame counter, intra-frame counter)\<close>.
\<close>

definition replaced_before :: "UINT64 \<times> UINT64 \<Rightarrow> UINT64 \<times> UINT64 \<Rightarrow> bool" where
  "replaced_before a b = (fst a < fst b \<or> (fst a = fst b \<and> snd b < snd a))"

text \<open>The entries of the recency example: same dataset, same shape, same flags.\<close>

definition lru_dataset :: Dataset where
  "lru_dataset =
     \<lparr>GetBrickVoxelCounts = (\<lambda>_. (2, 2, 2)), GetBitWidth = 8, GetComponentCount = 1,
      GetRange = (0, 255), IsSameEndianness = True, GetBrick = (\<lambda>_. None)\<rparr>"

definition lru_volume :: GLVolume where
  "lru_volume =
     \<lparr>kind = GLVolume3DTex, iSizeX = 2, iSizeY = 2, iSizeZ = 2,
      internalformat = GL_LUMINANCE8, format = GL_LUMINANCE, gltype = GL_UNSIGNED_BYTE,
      iSizePerElement = 1, voxels = Some [0, 0, 0, 0, 0, 0, 0, 0], wrap = GL_CLAMP\<rparr>"

definition lru_entry :: "nat \<Rightarrow> UINT64 \<Rightarrow> UINT64 \<Rightarrow> GLVolumeListElem" where
  "lru_entry users iFrame iIntra =
     \<lparr>pDataset = lru_dataset, iUserCount = users, m_iIntraFrameCounter = iIntra,
      m_iFrameCounter = iFrame, m_Key = 0,
      m_bIsPaddedToPowerOfTwo = False, m_bIsDownsampledTo8Bits = False,
      m_bDisableBorder = False, m_bEmulate3DWith2DStacks = False,
      m_bUsingHub = False, vData = [], volumes = [Some lru_volume]\<rparr>"

section \<open>Dataset registry\<close>

text \<open>
  Pointers are addresses; \<open>objects\<close> maps the address of every live
  VolumeDataset to its file name, \<open>fresh\<close> is the address the next
  \<open>new\<close> returns. Whether a file loads (\<open>IsLoaded\<close> after the
  constructor read it) is a parameter. Debug output is not modelled.
\<close>

datatype fault = OutOfRange | Undefined

type_synonym AbstrRenderer = nat
type_synonym VolumeDatasetPtr = nat

record VolDataListElem =
  pVolumeDataset :: VolumeDatasetPtr
  qpUser :: "AbstrRenderer list"

record GPUMemMan =
  m_vpVolumeDatasets :: "VolDataListElem list"
  objects :: "VolumeDatasetPtr \<rightharpoonup> string"
  fresh :: VolumeDatasetPtr

definition GPUMemMan_init :: GPUMemMan where
  "GPUMemMan_init = \<lparr>m_vpVolumeDatasets = [], objects = Map.empty, fresh = 0\<rparr>"

fun LoadDataset_reuse ::
  "(VolumeDatasetPtr \<rightharpoonup> string) \<Rightarrow> string \<Rightarrow> AbstrRenderer \<Rightarrow> VolDataListElem list \<Rightarrow>
   fault + (VolumeDatasetPtr \<times> VolDataListElem list) option" where
  "LoadDataset_reuse objs strFilename requester [] = Inr None"
| "LoadDataset_reuse objs strFilename requester (i # rest) =
     (case objs (pVolumeDataset i) of
        None \<Rightarrow> Inl Undefined
      | Some name \<Rightarrow>
          if name = strFilename
          then Inr (Some (pVolumeDataset i, i\<lparr>qpUser := qpUser i @ [requester]\<rparr> # rest))
          else (case LoadDataset_reuse objs strFilename requester rest of
                  Inl f \<Rightarrow> Inl f
                | Inr None \<Rightarrow> Inr None
                | Inr (Some (p, rest')) \<Rightarrow> Inr (Some (p, i # rest'))))"

definition LoadDataset ::
  "(string \<Rightarrow> bool) \<Rightarrow> GPUMemMan \<Rightarrow> string \<Rightarrow> AbstrRenderer \<Rightarrow>
   fault + (VolumeDatasetPtr option \<times> GPUMemMan)" where
  "LoadDataset IsLoaded m strFilename requester =
     (case LoadDataset_reuse (objects m) strFilename requester (m_vpVolumeDatasets m) of
        Inl f \<Rightarrow> Inl f
      | Inr (Some (p, l)) \<Rightarrow> Inr (Some p, m\<lparr>m_vpVolumeDatasets := l\<rparr>)
      | Inr None \<Rightarrow>
          (let dataset = fresh m;
               m' = m\<lparr>objects := (objects m)(dataset \<mapsto> strFilename), fresh := Suc (fresh m)\<rparr>
           in if IsLoaded strFilename
              then Inr (Some dataset,
                        m'\<lparr>m_vpVolumeDatasets :=
                             m_vpVolumeDatasets m @ [\<lparr>pVolumeDataset = dataset, qpUser = [requester]\<rparr>]\<rparr>)
              else Inr (None, m')))"

fun FreeDataset_user :: "AbstrRenderer \<Rightarrow> AbstrRenderer list \<Rightarrow> AbstrRenderer list option" where
  "FreeDataset_user requester [] = None"
| "FreeDataset_user requester (j # rest) =
     (if j = requester then Some rest else None)"

fun FreeDataset_find ::
  "VolumeDatasetPtr \<Rightarrow> AbstrRenderer \<Rightarrow> VolDataListElem list \<Rightarrow> (bool \<times> VolDataListElem list) option" where
  "FreeDataset_find p requester [] = None"
| "FreeDataset_find p requester (i # rest) =
     (if pVolumeDataset i = p
      then (case FreeDataset_user requester (qpUser i) of
              Some users \<Rightarrow>
                if length users = 0 then Some (True, rest)
                else Some (False, i\<lparr>qpUser := users\<rparr> # rest)
            | None \<Rightarrow> map_option (\<lambda>(del, rest'). (del, i # rest')) (FreeDataset_find p requester rest))
      else map_option (\<lambda>(del, rest'). (del, i # rest')) (FreeDataset_find p requester rest))"

definition FreeDataset :: "GPUMemMan \<Rightarrow> VolumeDatasetPtr \<Rightarrow> AbstrRenderer \<Rightarrow> GPUMemMan" where
  "FreeDataset m p requester =
     (case FreeDataset_find p requester (m_vpVolumeDatasets m) of
        Some (True, l) \<Rightarrow> m\<lparr>m_vpVolumeDatasets := l, objects := (objects m)(p := None)\<rparr>
      | Some (False, l) \<Rightarrow> m\<lparr>m_vpVolumeDatasets := l\<rparr>
      | None \<Rightarrow> m)"

section \<open>Fetching and staging a brick\<close>

text \<open>
  What the entry consumes from its surroundings: the in-core size the IO manager
  declares, the byte order of the host, whether an array allocation of a given size
  succeeds, and whether the GL error flag is clear when \<open>CreateTexture\<close> reads it
  last.
\<close>

record Platform =
  GetIncoresize :: nat
  little_endian :: bool
  new_succeeds :: "nat \<Rightarrow> bool"
  gl_no_error :: bool

definition u32 :: "nat \<Rightarrow> nat" where
  "u32 n = n mod 2 ^ 32"

definition u64 :: "nat \<Rightarrow> nat" where
  "u64 n = n mod 2 ^ 64"

text \<open>
  \<open>LoadData\<close> returns the result of \<open>GetBrick\<close>, the entry and the upload hub.
  The product of the three voxel counts is formed in 32 bits before the UINT64 factors
  widen it.
\<close>

definition LoadData ::
  "Platform \<Rightarrow> GLVolumeListElem \<Rightarrow> byte list \<Rightarrow> bool \<times> GLVolumeListElem \<times> byte list" where
  "LoadData pf e vUploadHub =
     (case GetBrickVoxelCounts (pDataset e) (m_Key e) of
        (s0, s1, s2) \<Rightarrow>
          let iByteWidth = GetBitWidth (pDataset e) div 8;
              iCompCount = GetComponentCount (pDataset e);
              iBrickSize = u64 (u64 (u32 (u32 (s0 * s1) * s2) * iByteWidth) * iCompCount)
          in if vUploadHub \<noteq> [] \<and> iBrickSize \<le> u64 (GetIncoresize pf * 4)
             then (case GetBrick (pDataset e) (m_Key e) of
                     Some bytes \<Rightarrow> (True, e\<lparr>m_bUsingHub := True\<rparr>, bytes)
                   | None \<Rightarrow> (False, e\<lparr>m_bUsingHub := True\<rparr>, vUploadHub))
             else (case GetBrick (pDataset e) (m_Key e) of
                     Some bytes \<Rightarrow> (True, e\<lparr>vData := bytes\<rparr>, vUploadHub)
                   | None \<Rightarrow> (False, e, vUploadHub)))"

definition FreeData :: "GLVolumeListElem \<Rightarrow> GLVolumeListElem" where
  "FreeData e = e\<lparr>vData := []\<rparr>"

definition FreeTexture :: "GLVolumeListElem \<Rightarrow> GLVolumeListElem" where
  "FreeTexture e =
     (if volumes e ! 0 \<noteq> None then e\<lparr>volumes := (volumes e)[0 := None]\<rparr> else e)"

section \<open>Padding transform\<close>

text \<open>
  Modelled from the spec: MathTools::NextPow2 and MathTools::IsPow2 are not under src/.
  \<open>NextPow2 n\<close> is the least power of two that is at least \<open>n\<close>, searched
  among the 33 powers a 32-bit count can need; \<open>IsPow2 n\<close> says that \<open>n\<close>
  is one of them.
\<close>

fun NextPow2_from :: "nat \<Rightarrow> nat \<Rightarrow> nat \<Rightarrow> nat" where
  "NextPow2_from 0 p n = p"
| "NextPow2_from (Suc k) p n = (if n \<le> p then p else NextPow2_from k (2 * p) n)"

definition NextPow2 :: "nat \<Rightarrow> nat" where
  "NextPow2 n = NextPow2_from 32 1 n"

definition IsPow2 :: "nat \<Rightarrow> bool" where
  "IsPow2 n = (NextPow2 n = n)"

text \<open>
  \<open>memcpy dst d src s n\<close> copies \<open>n\<close> bytes from offset \<open>s\<close> of
  \<open>src\<close> to offset \<open>d\<close> of \<open>dst\<close>; \<open>None\<close> when either range leaves
  its buffer. \<open>memcpy_within\<close> copies inside one buffer, where the ranges must
  not overlap.
\<close>

definition memcpy :: "byte list \<Rightarrow> nat \<Rightarrow> byte list \<Rightarrow> nat \<Rightarrow> nat \<Rightarrow> byte list option" where
  "memcpy dst d src s n =
     (if s + n \<le> length src \<and> d + n \<le> length dst
      then Some (take d dst @ take n (drop s src) @ drop (d + n) dst)
      else None)"

definition memcpy_within :: "byte list \<Rightarrow> nat \<Rightarrow> nat \<Rightarrow> nat \<Rightarrow> byte list option" where
  "memcpy_within buf d s n =
     (if s + n \<le> d \<or> d + n \<le> s then memcpy buf d buf s n else None)"

text \<open>
  The inner loop of \<open>PadData\<close> over the rows of one plane. The state is the
  padded buffer with the two running offsets \<open>(iTarget, iSource)\<close>; the first
  argument counts the rows still to copy.
\<close>

fun PadData_rows ::
  "nat \<Rightarrow> bool \<Rightarrow> nat \<Rightarrow> nat \<Rightarrow> nat \<Rightarrow> byte list \<Rightarrow> byte list \<times> nat \<times> nat \<Rightarrow>
   (byte list \<times> nat \<times> nat) option" where
  "PadData_rows 0 bDisableBorder iElementSize iRowSizeSource iRowSizeTarget pRawData st = Some st"
| "PadData_rows (Suc k) bDisableBorder iElementSize iRowSizeSource iRowSizeTarget pRawData
     (pPaddedData, iTarget, iSource) =
     (case memcpy pPaddedData iTarget pRawData iSource iRowSizeSource of
        None \<Rightarrow> None
      | Some copied \<Rightarrow>
          (case (if \<not> bDisableBorder \<and> iRowSizeTarget > iRowSizeSource
                 then (if iElementSize \<le> iTarget + iRowSizeSource
                       then memcpy_within copied (iTarget + iRowSizeSource)
                              (iTarget + iRowSizeSource - iElementSize) iElementSize
                       else None)
                 else Some copied) of
             None \<Rightarrow> None
           | Some clamped \<Rightarrow>
               PadData_rows k bDisableBorder iElementSize iRowSizeSource iRowSizeTarget pRawData
                 (clamped, iTarget + iRowSizeTarget, iSource + iRowSizeSource)))"

text \<open>The outer loop over the planes; the first argument counts the planes still to copy.\<close>

fun PadData_planes ::
  "nat \<Rightarrow> bool \<Rightarrow> nat \<Rightarrow> nat \<Rightarrow> nat \<Rightarrow> nat \<Rightarrow> nat \<Rightarrow> byte list \<Rightarrow> byte list \<times> nat \<times> nat \<Rightarrow>
   (byte list \<times> nat \<times> nat) option" where
  "PadData_planes 0 bDisableBorder iElementSize iRowSizeSource iRowSizeTarget sizeY paddedY pRawData st =
     Some st"
| "PadData_planes (Suc k) bDisableBorder iElementSize iRowSizeSource iRowSizeTarget sizeY paddedY
     pRawData st =
     (case PadData_rows sizeY bDisableBorder iElementSize iRowSizeSource iRowSizeTarget pRawData st of
        None \<Rightarrow> None
      | Some (rows, iTarget, iSource) \<Rightarrow>
          if paddedY > sizeY
          then (case (if \<not> bDisableBorder
                      then (if iRowSizeTarget \<le> iTarget
                            then memcpy_within rows iTarget (iTarget - iRowSizeTarget) iRowSizeTarget
                            else None)
                      else Some rows) of
                  None \<Rightarrow> None
                | Some clamped \<Rightarrow>
                    PadData_planes k bDisableBorder iElementSize iRowSizeSource iRowSizeTarget
                      sizeY paddedY pRawData
                      (clamped, iTarget + (paddedY - sizeY) * iRowSizeTarget, iSource))
          else PadData_planes k bDisableBorder iElementSize iRowSizeSource iRowSizeTarget
                 sizeY paddedY pRawData (rows, iTarget, iSource))"

text \<open>
  \<open>PadData\<close> is a member function; of the entry it reads \<open>m_bDisableBorder\<close>
  only, which is its first argument here. The result is the padded buffer (\<open>None\<close>
  for the null pointer returned after \<open>bad_alloc\<close>) with the padded size, or
  \<open>Undefined\<close> when a copy leaves a buffer. The size_t offsets are naturals.
\<close>

definition PadData ::
  "Platform \<Rightarrow> bool \<Rightarrow> byte list \<Rightarrow> UINTVECTOR3 \<Rightarrow> nat \<Rightarrow> nat \<Rightarrow>
   fault + (byte list option \<times> UINTVECTOR3)" where
  "PadData pf bDisableBorder pRawData vSize iBitWidth iCompCount =
     (case vSize of
        (s0, s1, s2) \<Rightarrow>
          let p0 = NextPow2 s0; p1 = NextPow2 s1; p2 = NextPow2 s2;
              iElementSize = iBitWidth div 8 * iCompCount;
              iRowSizeSource = s0 * iElementSize;
              iRowSizeTarget = p0 * iElementSize
          in if \<not> new_succeeds pf (iRowSizeTarget * p1 * p2) then Inr (None, (p0, p1, p2))
             else (case PadData_planes s2 bDisableBorder iElementSize iRowSizeSource iRowSizeTarget
                          s1 p1 pRawData (replicate (iRowSizeTarget * p1 * p2) 0, 0, 0) of
                     None \<Rightarrow> Inl Undefined
                   | Some (planes, iTarget, iSource) \<Rightarrow>
                       if \<not> bDisableBorder \<and> p2 > s2
                       then (if p1 * iRowSizeTarget \<le> iTarget
                             then (case memcpy_within planes iTarget (iTarget - p1 * iRowSizeTarget)
                                          (p1 * iRowSizeTarget) of
                                     None \<Rightarrow> Inl Undefined
                                   | Some clamped \<Rightarrow> Inr (Some clamped, (p0, p1, p2)))
                             else Inl Undefined)
                       else Inr (Some planes, (p0, p1, p2))))"

text \<open>
  Reading the buffers: \<open>bytes_at xs off n\<close> is the \<open>n\<close> elements from
  offset \<open>off\<close>, \<open>voxel buf dims el (x, y, z)\<close> the bytes of one voxel
  in the row-major layout of a volume of size \<open>dims\<close>.
\<close>

definition bytes_at :: "'a list \<Rightarrow> nat \<Rightarrow> nat \<Rightarrow> 'a list" where
  "bytes_at xs off n = take n (drop off xs)"

definition voxel :: "byte list \<Rightarrow> UINTVECTOR3 \<Rightarrow> nat \<Rightarrow> nat \<times> nat \<times> nat \<Rightarrow> byte list" where
  "voxel buf dims el pos =
     (case (dims, pos) of
        ((d0, d1, d2), (x, y, z)) \<Rightarrow> bytes_at buf (((z * d1 + y) * d0 + x) * el) el)"

text \<open>
  What the loops write, row by row and plane by plane: a source row followed by its
  padding, and the rows of a source plane followed by the padding rows.
\<close>

definition padded_row :: "bool \<Rightarrow> nat \<Rightarrow> nat \<Rightarrow> nat \<Rightarrow> byte list \<Rightarrow> byte list" where
  "padded_row db el rs rt row =
     row @ (if \<not> db \<and> rs < rt then drop (rs - el) row @ replicate (rt - rs - el) 0
            else replicate (rt - rs) 0)"

definition padded_rows :: "bool \<Rightarrow> nat \<Rightarrow> nat \<Rightarrow> nat \<Rightarrow> byte list \<Rightarrow> nat \<Rightarrow> nat \<Rightarrow> byte list list" where
  "padded_rows db el rs rt raw iS k =
     map (\<lambda>j. padded_row db el rs rt (bytes_at raw (iS + j * rs) rs)) [0..<k]"

definition clamp_row :: "bool \<Rightarrow> nat \<Rightarrow> nat \<Rightarrow> nat \<Rightarrow> nat \<Rightarrow> byte list \<Rightarrow> nat \<Rightarrow> byte list" where
  "clamp_row db el rs rt sy raw iS =
     (if \<not> db then padded_row db el rs rt (bytes_at raw (iS + (sy - 1) * rs) rs)
      else replicate rt 0)"

definition padded_plane ::
  "bool \<Rightarrow> nat \<Rightarrow> nat \<Rightarrow> nat \<Rightarrow> nat \<Rightarrow> nat \<Rightarrow> byte list \<Rightarrow> nat \<Rightarrow> byte list list" where
  "padded_plane db el rs rt sy py raw iS =
     padded_rows db el rs rt raw iS sy
     @ (if sy < py
        then clamp_row db el rs rt sy raw iS # replicate (py - sy - 1) (replicate rt 0)
        else [])"

definition padded_planes ::
  "bool \<Rightarrow> nat \<Rightarrow> nat \<Rightarrow> nat \<Rightarrow> nat \<Rightarrow> nat \<Rightarrow> byte list \<Rightarrow> nat \<Rightarrow> nat \<Rightarrow> byte list list" where
  "padded_planes db el rs rt sy py raw iS k =
     map (\<lambda>i. concat (padded_plane db el rs rt sy py raw (iS + i * (sy * rs)))) [0..<k]"

definition padded_volume ::
  "bool \<Rightarrow> nat \<Rightarrow> nat \<Rightarrow> nat \<Rightarrow> nat \<Rightarrow> nat \<Rightarrow> nat \<Rightarrow> nat \<Rightarrow> byte list \<Rightarrow> byte list" where
  "padded_volume db el rs rt sy py sz pz raw =
     concat (padded_planes db el rs rt sy py raw 0 sz)
     @ (if \<not> db \<and> sz < pz
        then concat (padded_plane db el rs rt sy py raw ((sz - 1) * (sy * rs)))
             @ replicate ((pz - sz - 1) * (py * rt)) 0
        else replicate ((pz - sz) * (py * rt)) 0)"

section \<open>Creating the texture\<close>

text \<open>
  Element \<open>i\<close> of the buffer read as an array of unsigned shorts, in the byte order
  of the host.
\<close>

definition read_ushort :: "bool \<Rightarrow> byte list \<Rightarrow> nat \<Rightarrow> nat option" where
  "read_ushort le buf i =
     (if 2 * i + 1 < length buf
      then Some (if le then unat (buf ! (2 * i)) + 256 * unat (buf ! (2 * i + 1))
                 else 256 * unat (buf ! (2 * i)) + unat (buf ! (2 * i + 1)))
      else None)"

text \<open>
  The conversion of a double to unsigned char truncates towards zero and is undefined
  when the truncated value is not a value of the type. The doubles are modelled by the
  reals they stand for.
\<close>

definition to_uchar :: "real \<Rightarrow> byte option" where
  "to_uchar x =
     (if - 1 < x \<and> x < 256 then Some (word_of_int (if x < 0 then \<lceil>x\<rceil> else \<lfloor>x\<rfloor>)) else None)"

definition QuantizedVal :: "real \<Rightarrow> real \<Rightarrow> nat \<Rightarrow> byte option" where
  "QuantizedVal fMin fMax v =
     (if fMax - fMin = 0 then None else to_uchar ((255 * real v - fMin) / (fMax - fMin)))"

text \<open>The quantisation loop, in place; the first argument counts the elements left.\<close>

fun Quantize :: "nat \<Rightarrow> bool \<Rightarrow> real \<Rightarrow> real \<Rightarrow> nat \<Rightarrow> byte list \<Rightarrow> byte list option" where
  "Quantize 0 le fMin fMax i pRawData = Some pRawData"
| "Quantize (Suc n) le fMin fMax i pRawData =
     (case read_ushort le pRawData i of
        None \<Rightarrow> None
      | Some v \<Rightarrow>
          (case QuantizedVal fMin fMax v of
             None \<Rightarrow> None
           | Some iQuantizedVal \<Rightarrow>
               Quantize n le fMin fMax (Suc i) (pRawData[i := iQuantizedVal])))"

text \<open>
  Modelled from the spec: EndianConvert::Swap is not under src/. It swaps the byte order
  of one element; for a short these are its two bytes. The loop applies it to the
  elements \<open>i, i + 1, ...\<close>; the first argument counts the elements left.
\<close>

fun SwapShorts :: "nat \<Rightarrow> nat \<Rightarrow> byte list \<Rightarrow> byte list option" where
  "SwapShorts 0 i pShorData = Some pShorData"
| "SwapShorts (Suc n) i pShorData =
     (if 2 * i + 1 < length pShorData
      then SwapShorts n (Suc i)
             (pShorData[2 * i := pShorData ! (2 * i + 1), 2 * i + 1 := pShorData ! (2 * i)])
      else None)"

text \<open>
  The staged bytes live in the upload hub or in \<open>vData\<close>; \<open>put_raw\<close> writes
  the buffer the raw pointer points to back to where it lives.
\<close>

definition put_raw :: "GLVolumeListElem \<Rightarrow> byte list \<Rightarrow> byte list \<Rightarrow> GLVolumeListElem \<times> byte list" where
  "put_raw e vUploadHub raw = (if m_bUsingHub e then (e, raw) else (e\<lparr>vData := raw\<rparr>, vUploadHub))"

definition fail_FreeData ::
  "GLVolumeListElem \<Rightarrow> byte list \<Rightarrow> byte list \<Rightarrow> fault + (bool \<times> GLVolumeListElem \<times> byte list)" where
  "fail_FreeData e vUploadHub raw =
     (case put_raw e vUploadHub raw of (e', hub') \<Rightarrow> Inr (False, FreeData e', hub'))"

text \<open>
  The tail of \<open>CreateTexture\<close> once the formats are chosen: make the volume from the
  raw or the padded buffer, release the staging buffer, and read the GL error flag.
\<close>

definition CreateTexture_upload ::
  "Platform \<Rightarrow> GLVolumeListElem \<Rightarrow> byte list \<Rightarrow> byte list \<Rightarrow> UINTVECTOR3 \<Rightarrow> nat \<Rightarrow> nat \<Rightarrow>
   GLenum \<Rightarrow> GLenum \<Rightarrow> GLenum \<Rightarrow> fault + (bool \<times> GLVolumeListElem \<times> byte list)" where
  "CreateTexture_upload pf e vUploadHub raw vSize iBitWidth iCompCount
     glInternalformat glFormat glType =
     (case vSize of
        (s0, s1, s2) \<Rightarrow>
          let clamp = (if m_bDisableBorder e then GL_CLAMP_TO_EDGE else GL_CLAMP);
              k = (if m_bEmulate3DWith2DStacks e then GLVolume2DTex else GLVolume3DTex)
          in if \<not> m_bIsPaddedToPowerOfTwo e \<or> (IsPow2 s0 \<and> IsPow2 s1 \<and> IsPow2 s2)
             then (case put_raw e vUploadHub raw of
                     (e', hub') \<Rightarrow>
                       Inr (gl_no_error pf,
                            FreeData (e'\<lparr>volumes := (volumes e')[0 := Some
                              \<lparr>kind = k, iSizeX = s0, iSizeY = s1, iSizeZ = s2,
                               internalformat = glInternalformat, format = glFormat,
                               gltype = glType,
                               iSizePerElement = u32 (u64 (iBitWidth div 8 * iCompCount)),
                               voxels = Some raw, wrap = clamp\<rparr>]\<rparr>),
                            hub'))
             else (case PadData pf (m_bDisableBorder e) raw vSize iBitWidth iCompCount of
                     Inl f \<Rightarrow> Inl f
                   | Inr (pPaddedData, (p0, p1, p2)) \<Rightarrow>
                       (case put_raw e vUploadHub raw of
                          (e', hub') \<Rightarrow>
                            Inr (gl_no_error pf,
                                 FreeData (e'\<lparr>volumes := (volumes e')[0 := Some
                                   \<lparr>kind = k, iSizeX = p0, iSizeY = p1, iSizeZ = p2,
                                    internalformat = glInternalformat, format = glFormat,
                                    gltype = glType,
                                    iSizePerElement = u32 (u64 (iBitWidth div 8 * iCompCount)),
                                    voxels = pPaddedData, wrap = clamp\<rparr>]\<rparr>),
                                 hub'))))"

text \<open>
  \<open>CreateTexture\<close>, from the choice of the formats on: \<open>raw\<close> is the staged
  buffer after the optional quantisation, \<open>iBitWidth\<close> the width after it.
\<close>

definition CreateTexture_formats ::
  "Platform \<Rightarrow> GLVolumeListElem \<Rightarrow> byte list \<Rightarrow> byte list \<Rightarrow> UINTVECTOR3 \<Rightarrow> bool \<Rightarrow> nat \<Rightarrow> nat \<Rightarrow>
   fault + (bool \<times> GLVolumeListElem \<times> byte list)" where
  "CreateTexture_formats pf e vUploadHub raw vSize bToggleEndian iBitWidth iCompCount =
     (case vSize of
        (s0, s1, s2) \<Rightarrow>
          if iCompCount \<noteq> 1 \<and> iCompCount \<noteq> 3 \<and> iCompCount \<noteq> 4
          then fail_FreeData e vUploadHub raw
          else
            let glFormat = (if iCompCount = 1 then GL_LUMINANCE
                            else if iCompCount = 3 then GL_RGB else GL_RGBA)
            in if iBitWidth = 8
               then CreateTexture_upload pf e vUploadHub raw vSize iBitWidth iCompCount
                      (if iCompCount = 1 then GL_LUMINANCE8
                       else if iCompCount = 3 then GL_RGB8 else GL_RGBA8)
                      glFormat GL_UNSIGNED_BYTE
               else if iBitWidth = 16
               then (case (if bToggleEndian
                           then SwapShorts (u64 (iCompCount * u32 (u32 (s0 * s1) * s2))) 0 raw
                           else Some raw) of
                       None \<Rightarrow> Inl Undefined
                     | Some swapped \<Rightarrow>
                         CreateTexture_upload pf e vUploadHub swapped vSize iBitWidth iCompCount
                           (if iCompCount = 1 then GL_LUMINANCE16
                            else if iCompCount = 3 then GL_RGB16 else GL_RGBA16)
                           glFormat GL_UNSIGNED_SHORT)
               else if iBitWidth = 32
               then CreateTexture_upload pf e vUploadHub raw vSize iBitWidth iCompCount
                      GL_LUMINANCE32F_ARB GL_LUMINANCE GL_FLOAT
               else fail_FreeData e vUploadHub raw)"

text \<open>
  \<open>CreateTexture\<close> returns its result, the entry and the upload hub, or the fault
  that ends it: \<open>OutOfRange\<close> is the exception of \<open>vector::at\<close> on an empty
  staging buffer, \<open>Undefined\<close> stands for an access outside a buffer or a
  conversion with no defined value.
\<close>

definition CreateTexture ::
  "Platform \<Rightarrow> GLVolumeListElem \<Rightarrow> byte list \<Rightarrow> bool \<Rightarrow>
   fault + (bool \<times> GLVolumeListElem \<times> byte list)" where
  "CreateTexture pf e0 vUploadHub0 bDeleteOldTexture =
     (let e1 = (if bDeleteOldTexture then FreeTexture e0 else e0);
          loaded = (if vData e1 = [] then LoadData pf e1 vUploadHub0 else (True, e1, vUploadHub0))
      in case loaded of
           (False, e, vUploadHub) \<Rightarrow> Inr (False, e, vUploadHub)
         | (True, e, vUploadHub) \<Rightarrow>
             let raw = (if m_bUsingHub e then vUploadHub else vData e)
             in if raw = [] then Inl OutOfRange
                else
                  let vSize = GetBrickVoxelCounts (pDataset e) (m_Key e);
                      bToggleEndian = (\<not> IsSameEndianness (pDataset e));
                      iBitWidth = GetBitWidth (pDataset e);
                      iCompCount = GetComponentCount (pDataset e)
                  in if m_bIsDownsampledTo8Bits e \<and> iBitWidth \<noteq> 8
                     then if iBitWidth \<noteq> 16 then fail_FreeData e vUploadHub raw
                          else (case vSize of
                                  (s0, s1, s2) \<Rightarrow>
                                    (case Quantize (u64 (u32 (u32 (s0 * s1) * s2) * iCompCount))
                                            (little_endian pf) (fst (GetRange (pDataset e)))
                                            (snd (GetRange (pDataset e))) 0 raw of
                                       None \<Rightarrow> Inl Undefined
                                     | Some quantized \<Rightarrow>
                                         CreateTexture_formats pf e vUploadHub quantized vSize
                                           bToggleEndian 8 iCompCount))
                     else CreateTexture_formats pf e vUploadHub raw vSize bToggleEndian
                            iBitWidth iCompCount)"

text \<open>
  The constructor: the initialisers, the null volumes, and \<open>CreateTexture\<close> with the
  default of its second parameter (declared in the header, not under src/; on the
  fresh entry \<open>FreeTexture\<close> has nothing to free either way).
\<close>

definition GLVolumeListElem_init ::
  "Dataset \<Rightarrow> BrickKey \<Rightarrow> bool \<Rightarrow> bool \<Rightarrow> bool \<Rightarrow> bool \<Rightarrow> UINT64 \<Rightarrow> UINT64 \<Rightarrow> GLVolumeListElem" where
  "GLVolumeListElem_init ds key bIsPaddedToPowerOfTwo bIsDownsampledTo8Bits bDisableBorder
     bEmulate3DWith2DStacks iIntraFrameCounter iFrameCounter =
     \<lparr>pDataset = ds, iUserCount = 1, m_iIntraFrameCounter = iIntraFrameCounter,
      m_iFrameCounter = iFrameCounter, m_Key = key,
      m_bIsPaddedToPowerOfTwo = bIsPaddedToPowerOfTwo,
      m_bIsDownsampledTo8Bits = bIsDownsampledTo8Bits,
      m_bDisableBorder = bDisableBorder,
      m_bEmulate3DWith2DStacks = bEmulate3DWith2DStacks,
      m_bUsingHub = False, vData = [], volumes = [None]\<rparr>"

definition new_GLVolumeListElem ::
  "Platform \<Rightarrow> Dataset \<Rightarrow> BrickKey \<Rightarrow> bool \<Rightarrow> bool \<Rightarrow> bool \<Rightarrow> bool \<Rightarrow> UINT64 \<Rightarrow> UINT64 \<Rightarrow>
   byte list \<Rightarrow> fault + (GLVolumeListElem \<times> byte list)" where
  "new_GLVolumeListElem pf ds key bIsPaddedToPowerOfTwo bIsDownsampledTo8Bits bDisableBorder
     bEmulate3DWith2DStacks iIntraFrameCounter iFrameCounter vUploadHub =
     (case CreateTexture pf
             (GLVolumeListElem_init ds key bIsPaddedToPowerOfTwo bIsDownsampledTo8Bits
                bDisableBorder bEmulate3DWith2DStacks iIntraFrameCounter iFrameCounter)
             vUploadHub True of
        Inl f \<Rightarrow> Inl f
      | Inr (ok, e, hub) \<Rightarrow>
          if \<not> ok \<and> volumes e ! 0 \<noteq> None then Inr (FreeTexture e, hub) else Inr (e, hub))"

text \<open>Datasets and platforms the theorems below are evaluated at.\<close>

definition brick_dataset ::
  "UINTVECTOR3 \<Rightarrow> nat \<Rightarrow> nat \<Rightarrow> real \<times> real \<Rightarrow> bool \<Rightarrow> byte list \<Rightarrow> Dataset" where
  "brick_dataset vSize iBitWidth iCompCount rng same bytes =
     \<lparr>GetBrickVoxelCounts = (\<lambda>_. vSize), GetBitWidth = iBitWidth,
      GetComponentCount = iCompCount, GetRange = rng, IsSameEndianness = same,
      GetBrick = (\<lambda>_. Some bytes)\<rparr>"

definition zero_brick :: "nat \<Rightarrow> byte list" where
  "zero_brick n = replicate n 0"

definition pc :: "nat \<Rightarrow> Platform" where
  "pc incore =
     \<lparr>GetIncoresize = incore, little_endian = True, new_succeeds = (\<lambda>_. True),
      gl_no_error = True\<rparr>"

section \<open>Entries in use are never matched\<close>

text \<open>
  C7: for every cache entry with user count greater than 0, BestMatch returns false
  whatever the dimensions, the flags and the recency stamps are, and it leaves the
  caller's counters as they were, so the entry is not taken for replacement.
\<close>

theorem BestMatch_in_use:
  "iUserCount e > 0 \<Longrightarrow>
   BestMatch e vDim p d b s iIntra iFrame = (False, iIntra, iFrame)"
  by (simp add: BestMatch_def)

theorem BestMatch_in_use_witness:
  "iUserCount (lru_entry 1 1 2) > 0
   \<and> BestMatch (lru_entry 1 1 2) (2, 2, 2) False False False False
        18446744073709551615 18446744073709551615
       = (False, 18446744073709551615, 18446744073709551615)"
  using BestMatch_in_use [of "lru_entry 1 1 2" "(2, 2, 2)" False False False False
      18446744073709551615 18446744073709551615]
  by (simp add: lru_entry_def)

section \<open>Which entry the best-match search takes\<close>

lemma BestMatch_replaceable:
  "replaceable vDim p d b s e \<Longrightarrow>
   BestMatch e vDim p d b s iIntra iFrame =
     (if m_iFrameCounter e < iFrame \<or> (iFrame = m_iFrameCounter e \<and> iIntra < m_iIntraFrameCounter e)
      then (True, m_iIntraFrameCounter e, m_iFrameCounter e)
      else (False, iIntra, iFrame))"
  by (auto simp: replaceable_def BestMatch_def)

lemma BestMatchSearch_inv:
  "\<forall>e\<in>set es. replaceable vDim p d b s e \<Longrightarrow>
   BestMatchSearch vDim p d b s k es (best, iIntra, iFrame) = (best', iIntra', iFrame') \<Longrightarrow>
   (\<forall>e\<in>set es. \<not> replaced_before (m_iFrameCounter e, m_iIntraFrameCounter e) (iFrame', iIntra'))
   \<and> \<not> replaced_before (iFrame, iIntra) (iFrame', iIntra')
   \<and> ((best', iIntra', iFrame') = (best, iIntra, iFrame)
      \<or> (\<exists>j<length es. best' = Some (k + j) \<and> m_iFrameCounter (es ! j) = iFrame'
            \<and> m_iIntraFrameCounter (es ! j) = iIntra'))"
proof (induction es arbitrary: k best iIntra iFrame)
  case Nil
  then show ?case by (simp add: replaced_before_def)
next
  case (Cons e es)
  have r: "replaceable vDim p d b s e" and rs: "\<forall>e\<in>set es. replaceable vDim p d b s e"
    using Cons.prems(1) by simp_all
  show ?case
  proof (cases "m_iFrameCounter e < iFrame \<or> (iFrame = m_iFrameCounter e \<and> iIntra < m_iIntraFrameCounter e)")
    case True
    then have bm: "BestMatch e vDim p d b s iIntra iFrame = (True, m_iIntraFrameCounter e, m_iFrameCounter e)"
      using BestMatch_replaceable [OF r, of iIntra iFrame] by simp
    have step: "BestMatchSearch vDim p d b s (Suc k) es (Some k, m_iIntraFrameCounter e, m_iFrameCounter e)
        = (best', iIntra', iFrame')"
      using Cons.prems(2) by (simp add: bm)
    from Cons.IH [OF rs step] have
      a: "\<forall>e\<in>set es. \<not> replaced_before (m_iFrameCounter e, m_iIntraFrameCounter e) (iFrame', iIntra')"
      and b: "\<not> replaced_before (m_iFrameCounter e, m_iIntraFrameCounter e) (iFrame', iIntra')"
      and c: "(best', iIntra', iFrame') = (Some k, m_iIntraFrameCounter e, m_iFrameCounter e)
      \<or> (\<exists>j<length es. best' = Some (Suc k + j) \<and> m_iFrameCounter (es ! j) = iFrame'
            \<and> m_iIntraFrameCounter (es ! j) = iIntra')" by blast+
    have d: "\<not> replaced_before (iFrame, iIntra) (iFrame', iIntra')"
      using True b by (auto simp: replaced_before_def)
    have e: "\<exists>j<length (e # es). best' = Some (k + j) \<and> m_iFrameCounter ((e # es) ! j) = iFrame'
            \<and> m_iIntraFrameCounter ((e # es) ! j) = iIntra'"
    proof (rule disjE [OF c])
      assume "(best', iIntra', iFrame') = (Some k, m_iIntraFrameCounter e, m_iFrameCounter e)"
      then show ?thesis by (intro exI [of _ 0]) simp
    next
      assume "\<exists>j<length es. best' = Some (Suc k + j) \<and> m_iFrameCounter (es ! j) = iFrame'
            \<and> m_iIntraFrameCounter (es ! j) = iIntra'"
      then obtain j where "j < length es" "best' = Some (Suc k + j)" "m_iFrameCounter (es ! j) = iFrame'"
         "m_iIntraFrameCounter (es ! j) = iIntra'" by blast
      then show ?thesis by (intro exI [of _ "Suc j"]) simp
    qed
    show ?thesis using a b d e by simp
  next
    case False
    then have bm: "BestMatch e vDim p d b s iIntra iFrame = (False, iIntra, iFrame)"
      using BestMatch_replaceable [OF r, of iIntra iFrame] by simp
    have step: "BestMatchSearch vDim p d b s (Suc k) es (best, iIntra, iFrame)
        = (best', iIntra', iFrame')"
      using Cons.prems(2) by (simp add: bm)
    from Cons.IH [OF rs step] have
      a: "\<forall>e\<in>set es. \<not> replaced_before (m_iFrameCounter e, m_iIntraFrameCounter e) (iFrame', iIntra')"
      and b: "\<not> replaced_before (iFrame, iIntra) (iFrame', iIntra')"
      and c: "(best', iIntra', iFrame') = (best, iIntra, iFrame)
      \<or> (\<exists>j<length es. best' = Some (Suc k + j) \<and> m_iFrameCounter (es ! j) = iFrame'
            \<and> m_iIntraFrameCounter (es ! j) = iIntra')" by blast+
    have d: "\<not> replaced_before (m_iFrameCounter e, m_iIntraFrameCounter e) (iFrame', iIntra')"
      using False b by (auto simp: replaced_before_def)
    have e: "(best', iIntra', iFrame') = (best, iIntra, iFrame) \<or> (\<exists>j<length (e # es). best' = Some (k + j) \<and> m_iFrameCounter ((e # es) ! j) = iFrame'
            \<and> m_iIntraFrameCounter ((e # es) ! j) = iIntra')"
    proof (rule disjE [OF c])
      assume "(best', iIntra', iFrame') = (best, iIntra, iFrame)"
      then show ?thesis by simp
    next
      assume "\<exists>j<length es. best' = Some (Suc k + j) \<and> m_iFrameCounter (es ! j) = iFrame'
            \<and> m_iIntraFrameCounter (es ! j) = iIntra'"
      then obtain j where "j < length es" "best' = Some (Suc k + j)" "m_iFrameCounter (es ! j) = iFrame'"
         "m_iIntraFrameCounter (es ! j) = iIntra'" by blast
      then have "Suc j < length (e # es) \<and> best' = Some (k + Suc j) \<and> m_iFrameCounter ((e # es) ! Suc j) = iFrame'
            \<and> m_iIntraFrameCounter ((e # es) ! Suc j) = iIntra'" by simp
      then show ?thesis by blast
    qed
    show ?thesis using a b d e by simp
  qed
qed

lemma replaceable_lru_entry:
  "replaceable (2, 2, 2) False False False False (lru_entry 0 f i)"
  by (simp add: replaceable_def Match_def lru_entry_def lru_dataset_def)

text \<open>
  C1, as the code has it: over entries that all match the requested voxel counts and
  flags and have user count 0, and whose frame counters are below the one the search
  starts from, the iterated BestMatch selects an entry with the smallest frame counter,
  and among the entries with that frame counter one with the largest intra-frame
  counter.
\<close>

theorem BestMatchSearch_oldest_frame_newest_intra:
  assumes ne: "es \<noteq> []"
    and rep: "\<forall>e\<in>set es. replaceable vDim p d b s e"
    and fr: "\<forall>e\<in>set es. m_iFrameCounter e < iFrame"
  shows "\<exists>j<length es.
           fst (BestMatchSearch vDim p d b s 0 es (None, iIntra, iFrame)) = Some j
           \<and> (\<forall>e\<in>set es. m_iFrameCounter (es ! j) \<le> m_iFrameCounter e)
           \<and> (\<forall>e\<in>set es. m_iFrameCounter e = m_iFrameCounter (es ! j)
                  \<longrightarrow> m_iIntraFrameCounter e \<le> m_iIntraFrameCounter (es ! j))"
proof -
  obtain best' iIntra' iFrame' where
    res: "BestMatchSearch vDim p d b s 0 es (None, iIntra, iFrame) = (best', iIntra', iFrame')"
    by (cases "BestMatchSearch vDim p d b s 0 es (None, iIntra, iFrame)") auto
  from BestMatchSearch_inv [OF rep res] have
    a: "\<forall>e\<in>set es. \<not> replaced_before (m_iFrameCounter e, m_iIntraFrameCounter e) (iFrame', iIntra')"
    and c: "(best', iIntra', iFrame') = (None, iIntra, iFrame)
      \<or> (\<exists>j<length es. best' = Some (0 + j) \<and> m_iFrameCounter (es ! j) = iFrame'
            \<and> m_iIntraFrameCounter (es ! j) = iIntra')" by blast+
  have "(best', iIntra', iFrame') \<noteq> (None, iIntra, iFrame)"
  proof
    assume "(best', iIntra', iFrame') = (None, iIntra, iFrame)"
    then have "\<not> replaced_before (m_iFrameCounter (hd es), m_iIntraFrameCounter (hd es)) (iFrame, iIntra)"
      using a ne by auto
    moreover have "m_iFrameCounter (hd es) < iFrame" using fr ne by auto
    ultimately show False by (simp add: replaced_before_def)
  qed
  with c obtain j where j: "j < length es" "best' = Some j" "m_iFrameCounter (es ! j) = iFrame'"
     "m_iIntraFrameCounter (es ! j) = iIntra'" by auto
  have "\<forall>e\<in>set es. m_iFrameCounter (es ! j) \<le> m_iFrameCounter e"
    using a j by (auto simp: replaced_before_def)
  moreover have "\<forall>e\<in>set es. m_iFrameCounter e = m_iFrameCounter (es ! j)
                  \<longrightarrow> m_iIntraFrameCounter e \<le> m_iIntraFrameCounter (es ! j)"
    using a j by (auto simp: replaced_before_def)
  ultimately show ?thesis using j res by auto
qed

theorem BestMatchSearch_oldest_frame_newest_intra_witness:
  "[lru_entry 0 1 5, lru_entry 0 1 2, lru_entry 0 2 0] \<noteq> []
   \<and> replaceable (2, 2, 2) False False False False (lru_entry 0 1 5)
   \<and> replaceable (2, 2, 2) False False False False (lru_entry 0 1 2)
   \<and> replaceable (2, 2, 2) False False False False (lru_entry 0 2 0)
   \<and> m_iFrameCounter (lru_entry 0 1 5) < 18446744073709551615
   \<and> m_iFrameCounter (lru_entry 0 1 2) < 18446744073709551615
   \<and> m_iFrameCounter (lru_entry 0 2 0) < 18446744073709551615
   \<and> (\<exists>j<length [lru_entry 0 1 5, lru_entry 0 1 2, lru_entry 0 2 0].
           fst (BestMatchSearch (2, 2, 2) False False False False 0
                  [lru_entry 0 1 5, lru_entry 0 1 2, lru_entry 0 2 0]
                  (None, 18446744073709551615, 18446744073709551615)) = Some j
           \<and> (\<forall>e\<in>set [lru_entry 0 1 5, lru_entry 0 1 2, lru_entry 0 2 0].
                  m_iFrameCounter ([lru_entry 0 1 5, lru_entry 0 1 2, lru_entry 0 2 0] ! j)
                    \<le> m_iFrameCounter e)
           \<and> (\<forall>e\<in>set [lru_entry 0 1 5, lru_entry 0 1 2, lru_entry 0 2 0].
                  m_iFrameCounter e
                    = m_iFrameCounter ([lru_entry 0 1 5, lru_entry 0 1 2, lru_entry 0 2 0] ! j)
                  \<longrightarrow> m_iIntraFrameCounter e
                    \<le> m_iIntraFrameCounter ([lru_entry 0 1 5, lru_entry 0 1 2, lru_entry 0 2 0] ! j)))"
proof -
  have f: "\<forall>e\<in>set [lru_entry 0 1 5, lru_entry 0 1 2, lru_entry 0 2 0].
             m_iFrameCounter e < 18446744073709551615"
    by (simp add: lru_entry_def)
  have r: "\<forall>e\<in>set [lru_entry 0 1 5, lru_entry 0 1 2, lru_entry 0 2 0].
             replaceable (2, 2, 2) False False False False e"
    by (simp add: replaceable_lru_entry)
  have n: "[lru_entry 0 1 5, lru_entry 0 1 2, lru_entry 0 2 0] \<noteq> []" by simp
  from BestMatchSearch_oldest_frame_newest_intra [OF n r f, of 18446744073709551615] f r
  show ?thesis by simp
qed

text \<open>
  C1 as stated fails: for A (frame 1, intra 5), B (frame 1, intra 2), C (frame 2,
  intra 0) the search started from the largest counters selects A, whether A or B
  comes first in the list; it never selects B.
\<close>

theorem BestMatchSearch_lru_example:
  "fst (BestMatchSearch (2, 2, 2) False False False False 0
          [lru_entry 0 1 5, lru_entry 0 1 2, lru_entry 0 2 0]
          (None, 18446744073709551615, 18446744073709551615)) = Some 0
   \<and> fst (BestMatchSearch (2, 2, 2) False False False False 0
          [lru_entry 0 1 2, lru_entry 0 1 5, lru_entry 0 2 0]
          (None, 18446744073709551615, 18446744073709551615)) = Some 1"
proof -
  have sel: "\<And>u f i. m_iFrameCounter (lru_entry u f i) = f"
    "\<And>u f i. m_iIntraFrameCounter (lru_entry u f i) = i"
    by (simp_all add: lru_entry_def)
  show ?thesis
    by (simp add: BestMatch_replaceable [OF replaceable_lru_entry] sel)
qed

section \<open>Releasing a shared dataset\<close>

text \<open>
  C3, the code at the failing input: a loadable file is loaded by two distinct
  requesters into an empty registry. Both calls return the same dataset. When the
  second requester frees first, the call changes nothing (only the first user of the
  list is compared), and after the first requester's call the dataset is still
  registered and alive with the second requester as its user. In the other order the
  dataset is destroyed and dropped by the second call.
\<close>

theorem FreeDataset_second_requester_first:
  assumes "IsLoaded f" and "r1 \<noteq> r2"
  shows "\<exists>d m1 m2.
           LoadDataset IsLoaded GPUMemMan_init f r1 = Inr (Some d, m1)
         \<and> LoadDataset IsLoaded m1 f r2 = Inr (Some d, m2)
         \<and> m_vpVolumeDatasets m2 = [\<lparr>pVolumeDataset = d, qpUser = [r1, r2]\<rparr>]
         \<and> FreeDataset m2 d r2 = m2
         \<and> m_vpVolumeDatasets (FreeDataset (FreeDataset m2 d r2) d r1)
             = [\<lparr>pVolumeDataset = d, qpUser = [r2]\<rparr>]
         \<and> objects (FreeDataset (FreeDataset m2 d r2) d r1) d = Some f
         \<and> m_vpVolumeDatasets (FreeDataset (FreeDataset m2 d r1) d r2) = []
         \<and> objects (FreeDataset (FreeDataset m2 d r1) d r2) d = None"
  using assms
  by (simp add: LoadDataset_def GPUMemMan_init_def FreeDataset_def Let_def)

theorem FreeDataset_second_requester_first_witness:
  "(\<lambda>n. n = ''head.uvf'') ''head.uvf'' \<and> (1::nat) \<noteq> 2
   \<and> (\<exists>d m1 m2.
           LoadDataset (\<lambda>n. n = ''head.uvf'') GPUMemMan_init ''head.uvf'' 1 = Inr (Some d, m1)
         \<and> LoadDataset (\<lambda>n. n = ''head.uvf'') m1 ''head.uvf'' 2 = Inr (Some d, m2)
         \<and> m_vpVolumeDatasets m2 = [\<lparr>pVolumeDataset = d, qpUser = [1, 2]\<rparr>]
         \<and> FreeDataset m2 d 2 = m2
         \<and> m_vpVolumeDatasets (FreeDataset (FreeDataset m2 d 2) d 1)
             = [\<lparr>pVolumeDataset = d, qpUser = [2]\<rparr>]
         \<and> objects (FreeDataset (FreeDataset m2 d 2) d 1) d = Some ''head.uvf''
         \<and> m_vpVolumeDatasets (FreeDataset (FreeDataset m2 d 1) d 2) = []
         \<and> objects (FreeDataset (FreeDataset m2 d 1) d 2) d = None)"
  using FreeDataset_second_requester_first [of "\<lambda>n. n = ''head.uvf''" "''head.uvf''" 1 2]
  by simp

section \<open>Choosing the buffer a brick is fetched into\<close>

lemma u32_id: "n < 2 ^ 32 \<Longrightarrow> u32 n = n"
  by (simp add: u32_def)

lemma u64_id: "n < 2 ^ 64 \<Longrightarrow> u64 n = n"
  by (simp add: u64_def)

lemma u32_voxels: "u32 (u32 (s0 * s1) * s2) = u32 (s0 * s1 * s2)"
  by (simp add: u32_def mod_mult_left_eq)

lemma factor_below: "(a::nat) * c < n \<Longrightarrow> 0 < c \<Longrightarrow> a < n"
proof -
  assume h: "a * c < n" and c: "0 < c"
  from c have "a \<le> a * c" by simp
  with h show "a < n" by linarith
qed

text \<open>
  Where the sizes fit the integer types the code computes them in, the raw bytes of a
  brick are fetched into the shared hub buffer if and only if the hub buffer is
  non-empty and the byte size of the brick (voxel count times bitWidth/8 times
  component count) is at most 4 times the in-core size of the IO subsystem; otherwise
  they are fetched into the private staging buffer \<open>vData\<close>.
\<close>

lemma LoadData_hub_when_sizes_fit:
  assumes vs: "GetBrickVoxelCounts (pDataset e) (m_Key e) = (s0, s1, s2)"
    and fetch: "GetBrick (pDataset e) (m_Key e) = Some bytes"
    and voxels32: "s0 * s1 * s2 < 2 ^ 32"
    and bytes64: "s0 * s1 * s2 * (GetBitWidth (pDataset e) div 8) * GetComponentCount (pDataset e) < 2 ^ 64"
    and incore64: "GetIncoresize pf * 4 < 2 ^ 64"
  shows "(vUploadHub \<noteq> []
            \<and> s0 * s1 * s2 * (GetBitWidth (pDataset e) div 8) * GetComponentCount (pDataset e)
                \<le> 4 * GetIncoresize pf
          \<longrightarrow> LoadData pf e vUploadHub = (True, e\<lparr>m_bUsingHub := True\<rparr>, bytes))
       \<and> (\<not> (vUploadHub \<noteq> []
            \<and> s0 * s1 * s2 * (GetBitWidth (pDataset e) div 8) * GetComponentCount (pDataset e)
                \<le> 4 * GetIncoresize pf)
          \<longrightarrow> LoadData pf e vUploadHub = (True, e\<lparr>vData := bytes\<rparr>, vUploadHub))"
proof -
  let ?bw = "GetBitWidth (pDataset e) div 8"
  let ?cc = "GetComponentCount (pDataset e)"
  have a: "u32 (u32 (s0 * s1) * s2) = s0 * s1 * s2"
    using voxels32 by (simp add: u32_voxels u32_id)
  have b: "u64 (s0 * s1 * s2 * ?bw) * ?cc = s0 * s1 * s2 * ?bw * ?cc"
  proof (cases "?cc = 0")
    case True
    then show ?thesis by simp
  next
    case False
    then have "s0 * s1 * s2 * ?bw < 2 ^ 64" using factor_below [OF bytes64] by simp
    then show ?thesis by (simp only: u64_id)
  qed
  have sz: "u64 (u64 (u32 (u32 (s0 * s1) * s2) * ?bw) * ?cc) = s0 * s1 * s2 * ?bw * ?cc"
    using bytes64 by (simp add: a b u64_id)
  have ic: "u64 (GetIncoresize pf * 4) = 4 * GetIncoresize pf"
    using incore64 by (simp add: u64_id mult.commute)
  show ?thesis
    unfolding LoadData_def vs by (simp add: Let_def sz ic fetch del: mult_Suc)
qed

text \<open>
  C9, the code at the failing input: the product of the three voxel counts is formed in
  32 bits, so for a brick of 65536 x 65536 x 1 voxels \<open>iBrickSize\<close> is 0 and the
  bytes are fetched into the hub buffer whenever it is non-empty, whatever the in-core
  size is, also when the byte size of the brick (2^32 for one 8-bit component) is far
  above 4 times the in-core size.
\<close>

theorem LoadData_voxel_product_wraps:
  assumes vs: "GetBrickVoxelCounts (pDataset e) (m_Key e) = (65536, 65536, 1)"
    and fetch: "GetBrick (pDataset e) (m_Key e) = Some bytes"
    and hub: "vUploadHub \<noteq> []"
  shows "LoadData pf e vUploadHub = (True, e\<lparr>m_bUsingHub := True\<rparr>, bytes)"
proof -
  have "u32 (u32 (65536 * 65536) * 1) = 0" by (simp add: u32_def)
  then have "u64 (u64 (u32 (u32 (65536 * 65536) * 1) * (GetBitWidth (pDataset e) div 8))
                 * GetComponentCount (pDataset e)) = 0"
    by (simp add: u64_def)
  then show ?thesis
    unfolding LoadData_def vs using hub fetch by (simp add: Let_def)
qed

theorem LoadData_voxel_product_wraps_witness:
  "\<not> 65536 * 65536 * 1 * (8 div 8) * 1 \<le> 4 * GetIncoresize (pc 0)
   \<and> LoadData (pc 0)
         (GLVolumeListElem_init
            (brick_dataset (65536, 65536, 1) 8 1 (0, 255) True (zero_brick (65536 * 65536)))
            0 False False False False 0 0) [0]
       = (True,
          (GLVolumeListElem_init
             (brick_dataset (65536, 65536, 1) 8 1 (0, 255) True (zero_brick (65536 * 65536)))
             0 False False False False 0 0)\<lparr>m_bUsingHub := True\<rparr>,
          zero_brick (65536 * 65536))"
proof -
  have "LoadData (pc 0)
         (GLVolumeListElem_init
            (brick_dataset (65536, 65536, 1) 8 1 (0, 255) True (zero_brick (65536 * 65536)))
            0 False False False False 0 0) [0]
       = (True,
          (GLVolumeListElem_init
             (brick_dataset (65536, 65536, 1) 8 1 (0, 255) True (zero_brick (65536 * 65536)))
             0 False False False False 0 0)\<lparr>m_bUsingHub := True\<rparr>,
          zero_brick (65536 * 65536))"
    by (rule LoadData_voxel_product_wraps)
       (simp_all add: GLVolumeListElem_init_def brick_dataset_def)
  moreover have "\<not> 65536 * 65536 * 1 * (8 div 8) * 1 \<le> 4 * GetIncoresize (pc 0)"
    by (simp add: pc_def)
  ultimately show ?thesis by (rule conjI [rotated])
qed

section \<open>A new entry is in use\<close>

lemma LoadData_iUserCount:
  "LoadData pf e hub = (ok, e', hub') \<Longrightarrow> iUserCount e' = iUserCount e"
  by (auto simp: LoadData_def Let_def split: prod.splits option.splits if_splits)

lemma put_raw_iUserCount:
  "put_raw e hub raw = (e', hub') \<Longrightarrow> iUserCount e' = iUserCount e"
  by (auto simp: put_raw_def split: if_splits)

lemma fail_FreeData_iUserCount:
  "fail_FreeData e hub raw = Inr (ok, e', hub') \<Longrightarrow> iUserCount e' = iUserCount e"
  by (auto simp: fail_FreeData_def FreeData_def split: prod.splits dest: put_raw_iUserCount)

lemma CreateTexture_upload_iUserCount:
  "CreateTexture_upload pf e hub raw vSize bw cc i f t = Inr (ok, e', hub') \<Longrightarrow>
   iUserCount e' = iUserCount e"
  by (auto simp: CreateTexture_upload_def FreeData_def Let_def
      split: prod.splits sum.splits if_splits dest: put_raw_iUserCount)

lemma CreateTexture_formats_iUserCount:
  "CreateTexture_formats pf e hub raw vSize tog bw cc = Inr (ok, e', hub') \<Longrightarrow>
   iUserCount e' = iUserCount e"
  by (auto simp: CreateTexture_formats_def Let_def
      split: prod.splits option.splits if_splits
      dest: CreateTexture_upload_iUserCount fail_FreeData_iUserCount)

lemma FreeTexture_iUserCount: "iUserCount (FreeTexture e) = iUserCount e"
  by (simp add: FreeTexture_def)

lemma CreateTexture_iUserCount:
  assumes "CreateTexture pf e hub del = Inr (ok, e', hub')"
  shows "iUserCount e' = iUserCount e"
proof -
  let ?e1 = "if del then FreeTexture e else e"
  have e1: "iUserCount ?e1 = iUserCount e" by (simp add: FreeTexture_iUserCount)
  obtain lok le lhub where
    l: "(if vData ?e1 = [] then LoadData pf ?e1 hub else (True, ?e1, hub)) = (lok, le, lhub)"
    by (cases "if vData ?e1 = [] then LoadData pf ?e1 hub else (True, ?e1, hub)") auto
  then have le: "iUserCount le = iUserCount e"
    using e1 by (auto split: if_splits dest: LoadData_iUserCount)
  from assms l have "iUserCount e' = iUserCount le"
    unfolding CreateTexture_def Let_def
    by (auto split: if_splits prod.splits option.splits bool.splits
        dest: CreateTexture_formats_iUserCount fail_FreeData_iUserCount)
  with le show ?thesis by simp
qed

text \<open>
  C10: every newly constructed volume cache entry has user count 1, and BestMatch
  returns false on it for every request, leaving the caller's counters as they were:
  the entry is no candidate for replacement while its user count stays above 0.
\<close>

theorem new_GLVolumeListElem_in_use:
  assumes "new_GLVolumeListElem pf ds key p d b s iIntra iFrame hub = Inr (e, hub')"
  shows "iUserCount e = 1
       \<and> BestMatch e vDim p' d' b' s' iTargetIntra iTargetFrame = (False, iTargetIntra, iTargetFrame)"
proof -
  have "iUserCount e = 1"
    using assms unfolding new_GLVolumeListElem_def
    by (auto split: sum.splits prod.splits if_splits
        dest!: CreateTexture_iUserCount simp: FreeTexture_iUserCount GLVolumeListElem_init_def)
  then show ?thesis by (simp add: BestMatch_def)
qed

theorem new_GLVolumeListElem_in_use_witness:
  "new_GLVolumeListElem (pc 0) (brick_dataset (1, 1, 1) 8 1 (0, 255) True [7]) 0
      False False False False 3 4 []
     = Inr ((GLVolumeListElem_init (brick_dataset (1, 1, 1) 8 1 (0, 255) True [7]) 0
              False False False False 3 4)
            \<lparr>volumes := [Some \<lparr>kind = GLVolume3DTex, iSizeX = 1, iSizeY = 1, iSizeZ = 1,
                 internalformat = GL_LUMINANCE8, format = GL_LUMINANCE, gltype = GL_UNSIGNED_BYTE,
                 iSizePerElement = 1, voxels = Some [7], wrap = GL_CLAMP\<rparr>]\<rparr>, [])
   \<and> iUserCount ((GLVolumeListElem_init (brick_dataset (1, 1, 1) 8 1 (0, 255) True [7]) 0
              False False False False 3 4)
            \<lparr>volumes := [Some \<lparr>kind = GLVolume3DTex, iSizeX = 1, iSizeY = 1, iSizeZ = 1,
                 internalformat = GL_LUMINANCE8, format = GL_LUMINANCE, gltype = GL_UNSIGNED_BYTE,
                 iSizePerElement = 1, voxels = Some [7], wrap = GL_CLAMP\<rparr>]\<rparr>) = 1
   \<and> BestMatch ((GLVolumeListElem_init (brick_dataset (1, 1, 1) 8 1 (0, 255) True [7]) 0
              False False False False 3 4)
            \<lparr>volumes := [Some \<lparr>kind = GLVolume3DTex, iSizeX = 1, iSizeY = 1, iSizeZ = 1,
                 internalformat = GL_LUMINANCE8, format = GL_LUMINANCE, gltype = GL_UNSIGNED_BYTE,
                 iSizePerElement = 1, voxels = Some [7], wrap = GL_CLAMP\<rparr>]\<rparr>)
         (1, 1, 1) False False False False 18446744073709551615 18446744073709551615
       = (False, 18446744073709551615, 18446744073709551615)"
proof -
  have c: "new_GLVolumeListElem (pc 0) (brick_dataset (1, 1, 1) 8 1 (0, 255) True [7]) 0
      False False False False 3 4 []
     = Inr ((GLVolumeListElem_init (brick_dataset (1, 1, 1) 8 1 (0, 255) True [7]) 0
              False False False False 3 4)
            \<lparr>volumes := [Some \<lparr>kind = GLVolume3DTex, iSizeX = 1, iSizeY = 1, iSizeZ = 1,
                 internalformat = GL_LUMINANCE8, format = GL_LUMINANCE, gltype = GL_UNSIGNED_BYTE,
                 iSizePerElement = 1, voxels = Some [7], wrap = GL_CLAMP\<rparr>]\<rparr>, [])"
    by (simp add: new_GLVolumeListElem_def CreateTexture_def FreeTexture_def LoadData_def
        GLVolumeListElem_init_def brick_dataset_def pc_def Let_def CreateTexture_formats_def
        CreateTexture_upload_def put_raw_def FreeData_def u32_def u64_def)
  from new_GLVolumeListElem_in_use [OF c, of "(1, 1, 1)" False False False False
      18446744073709551615 18446744073709551615] c
  show ?thesis by simp
qed

section \<open>Quantisation to 8 bits\<close>

text \<open>
  C4, what the code computes: for a 16-bit element \<open>v\<close> and a range
  \<open>fMin < fMax\<close> the quantised value is the integer part of
  \<open>(255 v - fMin) / (fMax - fMin)\<close> whenever that lies in the range of an
  unsigned char: the minimum is subtracted from \<open>255 v\<close>, not from \<open>v\<close>.
  At \<open>v = 100\<close> with range \<open>[50, 150]\<close> this is 254, where
  \<open>floor ((v - min) / (max - min) * 255)\<close> is 127.
\<close>

theorem QuantizedVal_computes:
  assumes "fMin < fMax" and "fMin \<le> 255 * real v"
    and "(255 * real v - fMin) / (fMax - fMin) < 256"
  shows "QuantizedVal fMin fMax v = Some (word_of_int \<lfloor>(255 * real v - fMin) / (fMax - fMin)\<rfloor>)"
proof -
  define q where "q = (255 * real v - fMin) / (fMax - fMin)"
  have q0: "0 \<le> q" using assms(1,2) by (simp add: q_def)
  have q256: "q < 256" using assms(3) by (simp add: q_def)
  have "to_uchar q = Some (word_of_int \<lfloor>q\<rfloor>)"
    using q0 q256 by (simp add: to_uchar_def)
  moreover have "fMax - fMin \<noteq> 0" using assms(1) by simp
  ultimately show ?thesis by (simp add: QuantizedVal_def q_def)
qed

theorem QuantizedVal_computes_witness:
  "(50::real) < 150 \<and> (50::real) \<le> 255 * real (100::nat)
   \<and> (255 * real (100::nat) - 50) / (150 - 50) < (256::real)
   \<and> QuantizedVal 50 150 100 = Some 254
   \<and> \<lfloor>(real (100::nat) - 50) / (150 - 50) * 255\<rfloor> = (127::int)"
  using QuantizedVal_computes [of 50 150 100] by simp

section \<open>Byte order of the uploaded data\<close>

lemma LoadData_private:
  "GetBrick ds key = Some bytes \<Longrightarrow>
   LoadData pf (GLVolumeListElem_init ds key p d b s iIntra iFrame) []
     = (True, (GLVolumeListElem_init ds key p d b s iIntra iFrame)\<lparr>vData := bytes\<rparr>, [])"
  by (simp add: LoadData_def GLVolumeListElem_init_def Let_def split: prod.splits)

text \<open>
  C5, the code at the failing input: a brick of 32-bit elements, fetched into the
  private staging buffer and uploaded without padding or quantisation, reaches the
  volume with exactly the bytes the dataset delivered, whatever the dataset says about
  its byte order. Only the 16-bit branch swaps.
\<close>

theorem new_GLVolumeListElem_float_bytes_unswapped:
  assumes bw: "GetBitWidth ds = 32"
    and cc: "GetComponentCount ds = 1 \<or> GetComponentCount ds = 3 \<or> GetComponentCount ds = 4"
    and fetch: "GetBrick ds key = Some bytes" and ne: "bytes \<noteq> []"
    and gl: "gl_no_error pf"
  shows "\<exists>vol. new_GLVolumeListElem pf ds key False False b s iIntra iFrame []
                 = Inr ((GLVolumeListElem_init ds key False False b s iIntra iFrame)
                          \<lparr>volumes := [Some vol]\<rparr>, [])
               \<and> voxels vol = Some bytes"
proof -
  let ?e0 = "GLVolumeListElem_init ds key False False b s iIntra iFrame"
  let ?e1 = "?e0\<lparr>vData := bytes\<rparr>"
  obtain s0 s1 s2 where vs: "GetBrickVoxelCounts ds key = (s0, s1, s2)"
    by (cases "GetBrickVoxelCounts ds key") auto
  define vol where "vol =
    \<lparr>kind = (if s then GLVolume2DTex else GLVolume3DTex), iSizeX = s0, iSizeY = s1, iSizeZ = s2,
     internalformat = GL_LUMINANCE32F_ARB, format = GL_LUMINANCE, gltype = GL_FLOAT,
     iSizePerElement = u32 (u64 (32 div 8 * GetComponentCount ds)),
     voxels = Some bytes, wrap = (if b then GL_CLAMP_TO_EDGE else GL_CLAMP)\<rparr>"
  have ft: "FreeTexture ?e0 = ?e0"
    by (simp add: FreeTexture_def GLVolumeListElem_init_def)
  have v0: "vData ?e0 = []" by (simp add: GLVolumeListElem_init_def)
  have sel: "pDataset ?e1 = ds" "m_Key ?e1 = key" "\<not> m_bUsingHub ?e1"
    "\<not> m_bIsDownsampledTo8Bits ?e1" "\<not> m_bIsPaddedToPowerOfTwo ?e1"
    "m_bDisableBorder ?e1 = b" "m_bEmulate3DWith2DStacks ?e1 = s" "vData ?e1 = bytes"
    "volumes ?e1 = [None]"
    by (simp_all add: GLVolumeListElem_init_def)
  have up: "CreateTexture_upload pf ?e1 [] bytes (s0, s1, s2) 32 (GetComponentCount ds)
              GL_LUMINANCE32F_ARB GL_LUMINANCE GL_FLOAT
            = Inr (True, ?e0\<lparr>volumes := [Some vol]\<rparr>, [])"
    by (simp add: CreateTexture_upload_def sel put_raw_def FreeData_def gl vol_def Let_def
        GLVolumeListElem_init_def)
  have fm: "CreateTexture_formats pf ?e1 [] bytes (s0, s1, s2) (\<not> IsSameEndianness ds) 32
              (GetComponentCount ds) = Inr (True, ?e0\<lparr>volumes := [Some vol]\<rparr>, [])"
    using cc by (auto simp: CreateTexture_formats_def up Let_def)
  have ct: "CreateTexture pf ?e0 [] True = Inr (True, ?e0\<lparr>volumes := [Some vol]\<rparr>, [])"
    unfolding CreateTexture_def
    by (simp add: ft v0 LoadData_private [OF fetch] sel ne bw vs fm Let_def)
  have "new_GLVolumeListElem pf ds key False False b s iIntra iFrame []
          = Inr (?e0\<lparr>volumes := [Some vol]\<rparr>, [])"
    by (simp add: new_GLVolumeListElem_def ct)
  moreover have "voxels vol = Some bytes" by (simp add: vol_def)
  ultimately show ?thesis by blast
qed

theorem new_GLVolumeListElem_float_bytes_unswapped_witness:
  "GetBitWidth (brick_dataset (1, 1, 1) 32 1 (0, 1) False [1, 2, 3, 4]) = 32
   \<and> \<not> IsSameEndianness (brick_dataset (1, 1, 1) 32 1 (0, 1) False [1, 2, 3, 4])
   \<and> (\<exists>vol. new_GLVolumeListElem (pc 0) (brick_dataset (1, 1, 1) 32 1 (0, 1) False [1, 2, 3, 4]) 0
                 False False False False 0 0 []
               = Inr ((GLVolumeListElem_init (brick_dataset (1, 1, 1) 32 1 (0, 1) False [1, 2, 3, 4]) 0
                         False False False False 0 0)\<lparr>volumes := [Some vol]\<rparr>, [])
             \<and> voxels vol = Some [1, 2, 3, 4])"
  using new_GLVolumeListElem_float_bytes_unswapped
    [of "brick_dataset (1, 1, 1) 32 1 (0, 1) False [1, 2, 3, 4]" 0 "[1, 2, 3, 4]" "pc 0"
        False False 0 0]
  by (simp add: brick_dataset_def pc_def)

section \<open>Unsupported component counts\<close>





section \<open>What the padding loops write\<close>

lemma NextPow2_from_ge: "n \<le> p * 2 ^ k \<Longrightarrow> n \<le> NextPow2_from k p n"
proof (induction k arbitrary: p)
  case 0
  then show ?case by simp
next
  case (Suc k)
  from Suc.prems have "n \<le> (2 * p) * 2 ^ k" by (simp add: mult.assoc mult.left_commute)
  then have "n \<le> NextPow2_from k (2 * p) n" by (rule Suc.IH)
  then show ?case by simp
qed

lemma NextPow2_ge: "n \<le> 2 ^ 32 \<Longrightarrow> n \<le> NextPow2 n"
  unfolding NextPow2_def by (rule NextPow2_from_ge) simp

lemma NextPow2_from_fix: "n \<le> p \<Longrightarrow> NextPow2_from k p n = p"
  by (cases k) auto

lemma NextPow2_from_pow2: "j \<le> i \<Longrightarrow> i \<le> j + k \<Longrightarrow> NextPow2_from k (2 ^ j) (2 ^ i) = 2 ^ i"
proof (induction k arbitrary: j)
  case 0
  then show ?case by simp
next
  case (Suc k)
  show ?case
  proof (cases "i = j")
    case True
    then show ?thesis by simp
  next
    case False
    with Suc.prems have lt: "j < i" by simp
    then have "(2::nat) ^ j < 2 ^ i" by simp
    then have "\<not> (2::nat) ^ i \<le> 2 ^ j" by simp
    moreover have "NextPow2_from k (2 ^ Suc j) (2 ^ i) = 2 ^ i"
      using Suc.IH [of "Suc j"] lt Suc.prems by simp
    ultimately show ?thesis by simp
  qed
qed

lemma NextPow2_pow2: "i \<le> 32 \<Longrightarrow> NextPow2 (2 ^ i) = 2 ^ i"
  unfolding NextPow2_def using NextPow2_from_pow2 [of 0 i 32] by simp

lemma memcpy_append:
  assumes "length w = iT" "n \<le> m" "s + n \<le> length src"
  shows "memcpy (w @ replicate m 0) iT src s n
         = Some (w @ take n (drop s src) @ replicate (m - n) 0)"
  using assms by (simp add: memcpy_def)

lemma memcpy_within_append:
  assumes "length a = iT" "n \<le> iT" "n \<le> m"
  shows "memcpy_within (a @ replicate m 0) iT (iT - n) n
         = Some (a @ drop (iT - n) a @ replicate (m - n) 0)"
  using assms by (simp add: memcpy_within_def memcpy_def)

lemma length_bytes_at: "off + n \<le> length xs \<Longrightarrow> length (bytes_at xs off n) = n"
  by (simp add: bytes_at_def)

lemma length_padded_row:
  assumes "length row = rs" "rs \<le> rt" "\<not> db \<and> rs < rt \<Longrightarrow> el \<le> rs \<and> rs + el \<le> rt"
  shows "length (padded_row db el rs rt row) = rt"
  using assms by (auto simp: padded_row_def)

lemma PadData_rows_step:
  assumes w: "length w = iT" and m: "rt \<le> m" and src: "iS + rs \<le> length raw"
    and rs: "rs \<le> rt" and cl: "\<not> db \<and> rs < rt \<Longrightarrow> el \<le> rs \<and> rs + el \<le> rt"
  shows "PadData_rows (Suc k) db el rs rt raw (w @ replicate m 0, iT, iS)
       = PadData_rows k db el rs rt raw
           ((w @ padded_row db el rs rt (bytes_at raw iS rs)) @ replicate (m - rt) 0,
            iT + rt, iS + rs)"
proof -
  let ?row = "bytes_at raw iS rs"
  have lrow: "length ?row = rs" using src by (rule length_bytes_at)
  have copy: "memcpy (w @ replicate m 0) iT raw iS rs = Some (w @ ?row @ replicate (m - rs) 0)"
    using memcpy_append [OF w _ src, of m] rs m by (simp add: bytes_at_def)
  show ?thesis
  proof (cases "\<not> db \<and> rs < rt")
    case True
    from cl [OF True] have el: "el \<le> rs" "rs + el \<le> rt" by simp_all
    have la: "length (w @ ?row) = iT + rs" using w lrow by simp
    have "memcpy_within ((w @ ?row) @ replicate (m - rs) 0) (iT + rs) (iT + rs - el) el
          = Some ((w @ ?row) @ drop (iT + rs - el) (w @ ?row) @ replicate (m - rs - el) 0)"
      using el m by (intro memcpy_within_append [OF la]) simp_all
    moreover have "drop (iT + rs - el) (w @ ?row) = drop (rs - el) ?row"
      using w el by simp
    moreover have "replicate (rt - rs - el) (0::byte) @ replicate (m - rt) 0 = replicate (m - rs - el) 0"
    proof -
      have "(rt - rs - el) + (m - rt) = m - rs - el" using el m by simp
      then show ?thesis by (simp only: replicate_add [symmetric])
    qed
    moreover have "padded_row db el rs rt ?row
          = ?row @ drop (rs - el) ?row @ replicate (rt - rs - el) 0"
      using True by (auto simp: padded_row_def)
    ultimately have clamp: "memcpy_within (w @ ?row @ replicate (m - rs) 0) (iT + rs) (iT + rs - el) el
          = Some ((w @ padded_row db el rs rt ?row) @ replicate (m - rt) 0)"
      by simp
    have "el \<le> iT + rs" using el by simp
    moreover have c: "(\<not> db \<and> rs < rt) = True" using True by simp
    ultimately show ?thesis by (simp add: copy clamp c)
  next
    case False
    have "(rt - rs) + (m - rt) = m - rs" using rs m by simp
    then have "replicate (rt - rs) (0::byte) @ replicate (m - rt) 0 = replicate (m - rs) 0"
      by (simp only: replicate_add [symmetric])
    moreover have "padded_row db el rs rt ?row = ?row @ replicate (rt - rs) 0"
      using False by (auto simp: padded_row_def)
    ultimately have "w @ ?row @ replicate (m - rs) 0 = (w @ padded_row db el rs rt ?row) @ replicate (m - rt) 0"
      by simp
    moreover have nc: "(\<not> db \<and> rs < rt) = False" using False by simp
    ultimately show ?thesis by (simp add: copy nc)
  qed
qed

lemma PadData_rows_append:
  assumes "length w = iT" "k * rt \<le> m" "iS + k * rs \<le> length raw" "rs \<le> rt"
    and cl: "\<not> db \<and> rs < rt \<Longrightarrow> el \<le> rs \<and> rs + el \<le> rt"
  shows "PadData_rows k db el rs rt raw (w @ replicate m 0, iT, iS)
       = Some (w @ concat (padded_rows db el rs rt raw iS k) @ replicate (m - k * rt) 0,
               iT + k * rt, iS + k * rs)"
  using assms(1-4)
proof (induction k arbitrary: w m iT iS)
  case 0
  then show ?case by (simp add: padded_rows_def)
next
  case (Suc k)
  let ?pr = "padded_row db el rs rt (bytes_at raw iS rs)"
  have src: "iS + rs \<le> length raw" using Suc.prems(3) by simp
  have m: "rt \<le> m" using Suc.prems(2) by simp
  have lpr: "length ?pr = rt"
    using length_bytes_at [OF src] Suc.prems(4) cl by (intro length_padded_row) auto
  have step: "PadData_rows (Suc k) db el rs rt raw (w @ replicate m 0, iT, iS)
       = PadData_rows k db el rs rt raw ((w @ ?pr) @ replicate (m - rt) 0, iT + rt, iS + rs)"
    using Suc.prems(1) m src Suc.prems(4) cl by (rule PadData_rows_step)
  have "PadData_rows k db el rs rt raw ((w @ ?pr) @ replicate (m - rt) 0, iT + rt, iS + rs)
       = Some ((w @ ?pr) @ concat (padded_rows db el rs rt raw (iS + rs) k)
                 @ replicate (m - rt - k * rt) 0, iT + rt + k * rt, iS + rs + k * rs)"
    using Suc.prems lpr by (intro Suc.IH) simp_all
  moreover have "padded_rows db el rs rt raw iS (Suc k)
       = ?pr # padded_rows db el rs rt raw (iS + rs) k"
    unfolding padded_rows_def by (simp add: map_upt_Suc add.assoc del: upt_Suc)
  ultimately show ?case unfolding step by (simp add: add.assoc)
qed

lemma padded_rows_Suc:
  "padded_rows db el rs rt raw iS (Suc k)
   = padded_rows db el rs rt raw iS k @ [padded_row db el rs rt (bytes_at raw (iS + k * rs) rs)]"
  by (simp add: padded_rows_def)

lemma length_concat_padded_rows:
  assumes "iS + k * rs \<le> length raw" "rs \<le> rt"
    and cl: "\<not> db \<and> rs < rt \<Longrightarrow> el \<le> rs \<and> rs + el \<le> rt"
  shows "length (concat (padded_rows db el rs rt raw iS k)) = k * rt"
  using assms(1)
proof (induction k)
  case 0
  then show ?case by (simp add: padded_rows_def)
next
  case (Suc k)
  have "iS + k * rs + rs \<le> length raw" using Suc.prems by (simp add: add.assoc)
  then have "length (bytes_at raw (iS + k * rs) rs) = rs" by (rule length_bytes_at)
  then have "length (padded_row db el rs rt (bytes_at raw (iS + k * rs) rs)) = rt"
    using assms(2) cl by (intro length_padded_row) auto
  moreover have "length (concat (padded_rows db el rs rt raw iS k)) = k * rt"
    using Suc by simp
  ultimately show ?case by (simp add: padded_rows_Suc)
qed

lemma concat_replicate_zeros:
  "concat (replicate n (replicate L (0::byte))) = replicate (n * L) 0"
  by (induction n) (simp_all add: replicate_add)

lemma zeros_split: "a \<le> m \<Longrightarrow> replicate a (0::byte) @ replicate (m - a) 0 = replicate m 0"
  by (simp add: replicate_add [symmetric])

lemma length_clamp_row:
  assumes src: "iS + sy * rs \<le> length raw" and rs: "rs \<le> rt" and sy: "0 < sy"
    and cl: "\<not> db \<and> rs < rt \<Longrightarrow> el \<le> rs \<and> rs + el \<le> rt"
  shows "length (clamp_row db el rs rt sy raw iS) = rt"
proof (cases db)
  case True
  then show ?thesis by (simp add: clamp_row_def)
next
  case False
  from sy obtain j where j: "sy = Suc j" by (cases sy) auto
  have "iS + j * rs + rs \<le> length raw" using src j by (simp add: add.assoc)
  then have "length (bytes_at raw (iS + j * rs) rs) = rs" by (rule length_bytes_at)
  then have "length (padded_row db el rs rt (bytes_at raw (iS + (sy - 1) * rs) rs)) = rt"
    using rs cl j by (intro length_padded_row) auto
  then show ?thesis using False by (simp add: clamp_row_def)
qed

lemma pad_rows_total: "sy < py \<Longrightarrow> sy * rt + (rt + (py - sy - 1) * rt) = py * (rt::nat)"
proof -
  assume "sy < py"
  then have "sy + (1 + (py - sy - 1)) = py" by simp
  then have "(sy + (1 + (py - sy - 1))) * rt = py * rt" by simp
  then show ?thesis by (simp only: add_mult_distrib mult_1)
qed

lemma pad_gap: "sy < py \<Longrightarrow> (py - sy) * L = L + (py - sy - 1) * (L::nat)"
proof -
  assume "sy < py"
  then have "py - sy = 1 + (py - sy - 1)" by arith
  then have "(py - sy) * L = (1 + (py - sy - 1)) * L" by simp
  then show ?thesis by (simp only: add_mult_distrib mult_1)
qed

lemma length_concat_padded_plane:
  assumes src: "iS + sy * rs \<le> length raw" and rs: "rs \<le> rt" and sy: "sy \<le> py"
    and cl: "\<not> db \<and> rs < rt \<Longrightarrow> el \<le> rs \<and> rs + el \<le> rt"
    and yl: "sy < py \<Longrightarrow> 0 < sy"
  shows "length (concat (padded_plane db el rs rt sy py raw iS)) = py * rt"
proof -
  have rows: "length (concat (padded_rows db el rs rt raw iS sy)) = sy * rt"
    using src rs cl by (rule length_concat_padded_rows)
  show ?thesis
  proof (cases "sy < py")
    case False
    with sy have "sy = py" by simp
    then show ?thesis using rows by (simp add: padded_plane_def)
  next
    case True
    have lr: "length (clamp_row db el rs rt sy raw iS) = rt"
      using src rs yl [OF True] cl by (rule length_clamp_row)
    show ?thesis
      using True rows lr pad_rows_total [OF True, of rt]
      by (simp add: padded_plane_def concat_replicate_zeros)
  qed
qed

lemma last_padded_row:
  assumes src: "iS + Suc j * rs \<le> length raw" and rs: "rs \<le> rt"
    and cl: "\<not> db \<and> rs < rt \<Longrightarrow> el \<le> rs \<and> rs + el \<le> rt"
    and w: "length w = iT"
  shows "drop (iT + Suc j * rt - rt) (w @ concat (padded_rows db el rs rt raw iS (Suc j)))
         = padded_row db el rs rt (bytes_at raw (iS + j * rs) rs)"
proof -
  have "iS + j * rs \<le> length raw" using src by simp
  then have "length (concat (padded_rows db el rs rt raw iS j)) = j * rt"
    using rs cl by (rule length_concat_padded_rows)
  then show ?thesis using w by (simp add: padded_rows_Suc)
qed

lemma PadData_planes_step:
  assumes w: "length w = iT" and m: "py * rt \<le> m" and src: "iS + sy * rs \<le> length raw"
    and rs: "rs \<le> rt" and sy: "sy \<le> py"
    and cl: "\<not> db \<and> rs < rt \<Longrightarrow> el \<le> rs \<and> rs + el \<le> rt"
    and yl: "sy < py \<Longrightarrow> 0 < sy"
  shows "PadData_planes (Suc k) db el rs rt sy py raw (w @ replicate m 0, iT, iS)
       = PadData_planes k db el rs rt sy py raw
           ((w @ concat (padded_plane db el rs rt sy py raw iS)) @ replicate (m - py * rt) 0,
            iT + py * rt, iS + sy * rs)"
proof -
  let ?rows = "concat (padded_rows db el rs rt raw iS sy)"
  have sm: "sy * rt \<le> m"
  proof -
    have "sy * rt \<le> py * rt" using sy by (rule mult_le_mono1)
    then show ?thesis using m by (rule order_trans)
  qed
  have rows: "PadData_rows sy db el rs rt raw (w @ replicate m 0, iT, iS)
       = Some ((w @ ?rows) @ replicate (m - sy * rt) 0, iT + sy * rt, iS + sy * rs)"
    using PadData_rows_append [OF w sm src rs cl] by simp
  have lrows: "length ?rows = sy * rt"
    using src rs cl by (rule length_concat_padded_rows)
  show ?thesis
  proof (cases "sy < py")
    case False
    with sy have eq: "sy = py" by simp
    have "\<not> py > sy" using eq by simp
    then show ?thesis
      using rows eq by (simp add: padded_plane_def)
  next
    case True
    from yl [OF True] obtain j where j: "sy = Suc j" by (cases sy) auto
    note gap = pad_rows_total [OF True, of rt]
    have gap': "(py - sy) * rt = rt + (py - sy - 1) * rt"
    proof -
      have "py - sy = 1 + (py - sy - 1)" using True by simp
      then have "(py - sy) * rt = (1 + (py - sy - 1)) * rt" by simp
      then show ?thesis by (simp only: add_mult_distrib mult_1)
    qed
    have tgt: "iT + sy * rt + (py - sy) * rt = iT + py * rt" using gap gap' by simp
    have rest: "m - sy * rt = (py - sy) * rt + (m - py * rt)" using gap gap' m by simp
    have rest1: "m - sy * rt - rt = (py - sy - 1) * rt + (m - py * rt)" using rest gap' by simp
    have plane: "concat (padded_plane db el rs rt sy py raw iS)
          = ?rows @ clamp_row db el rs rt sy raw iS @ replicate ((py - sy - 1) * rt) 0"
      using True by (simp add: padded_plane_def concat_replicate_zeros)
    show ?thesis
    proof (cases db)
      case db: True
      have "clamp_row db el rs rt sy raw iS = replicate rt 0" using db by (simp add: clamp_row_def)
      then have "(w @ ?rows) @ replicate (m - sy * rt) 0
            = (w @ concat (padded_plane db el rs rt sy py raw iS)) @ replicate (m - py * rt) 0"
        by (simp add: plane rest gap' replicate_add)
      then show ?thesis using rows True db tgt by (simp add: add.assoc)
    next
      case nb: False
      let ?last = "padded_row db el rs rt (bytes_at raw (iS + (sy - 1) * rs) rs)"
      have cr: "clamp_row db el rs rt sy raw iS = ?last" using nb by (simp add: clamp_row_def)
      have la: "length (w @ ?rows) = iT + sy * rt" using w lrows by simp
      have n1: "rt \<le> iT + sy * rt" using j by simp
      have n2: "rt \<le> m - sy * rt" using rest gap' by simp
      have mw: "memcpy_within ((w @ ?rows) @ replicate (m - sy * rt) 0) (iT + sy * rt)
              (iT + sy * rt - rt) rt
            = Some ((w @ ?rows) @ drop (iT + sy * rt - rt) (w @ ?rows)
                      @ replicate (m - sy * rt - rt) 0)"
        using la n1 n2 by (rule memcpy_within_append)
      have dl: "drop (iT + sy * rt - rt) (w @ ?rows) = ?last"
        using last_padded_row [OF _ rs cl w, of iS j raw] src j by simp
      have z: "replicate (m - sy * rt - rt) (0::byte)
            = replicate ((py - sy - 1) * rt) 0 @ replicate (m - py * rt) 0"
        by (simp only: rest1 replicate_add)
      have clamp: "memcpy_within ((w @ ?rows) @ replicate (m - sy * rt) 0) (iT + sy * rt)
              (iT + sy * rt - rt) rt
            = Some ((w @ concat (padded_plane db el rs rt sy py raw iS)) @ replicate (m - py * rt) 0)"
        unfolding mw dl z plane cr by simp
      show ?thesis using rows True nb tgt n1 clamp by (simp add: add.assoc)
    qed
  qed
qed

lemma padded_planes_Suc:
  "padded_planes db el rs rt sy py raw iS (Suc k)
   = padded_planes db el rs rt sy py raw iS k
     @ [concat (padded_plane db el rs rt sy py raw (iS + k * (sy * rs)))]"
  by (simp add: padded_planes_def)

lemma padded_planes_shift:
  "padded_planes db el rs rt sy py raw iS (Suc k)
   = concat (padded_plane db el rs rt sy py raw iS)
     # padded_planes db el rs rt sy py raw (iS + sy * rs) k"
  unfolding padded_planes_def by (simp add: map_upt_Suc add.assoc del: upt_Suc)

lemma PadData_planes_append:
  assumes "length w = iT" "k * (py * rt) \<le> m" "iS + k * (sy * rs) \<le> length raw"
    and rs: "rs \<le> rt" and sy: "sy \<le> py"
    and cl: "\<not> db \<and> rs < rt \<Longrightarrow> el \<le> rs \<and> rs + el \<le> rt"
    and yl: "sy < py \<Longrightarrow> 0 < sy"
  shows "PadData_planes k db el rs rt sy py raw (w @ replicate m 0, iT, iS)
       = Some (w @ concat (padded_planes db el rs rt sy py raw iS k)
                 @ replicate (m - k * (py * rt)) 0,
               iT + k * (py * rt), iS + k * (sy * rs))"
  using assms(1-3)
proof (induction k arbitrary: w m iT iS)
  case 0
  then show ?case by (simp add: padded_planes_def)
next
  case (Suc k)
  let ?pl = "concat (padded_plane db el rs rt sy py raw iS)"
  have src: "iS + sy * rs \<le> length raw" using Suc.prems(3) by simp
  have m: "py * rt \<le> m" using Suc.prems(2) by simp
  have lpl: "length ?pl = py * rt"
    using src rs sy cl yl by (rule length_concat_padded_plane)
  have step: "PadData_planes (Suc k) db el rs rt sy py raw (w @ replicate m 0, iT, iS)
       = PadData_planes k db el rs rt sy py raw
           ((w @ ?pl) @ replicate (m - py * rt) 0, iT + py * rt, iS + sy * rs)"
    using Suc.prems(1) m src rs sy cl yl by (rule PadData_planes_step)
  have "PadData_planes k db el rs rt sy py raw
           ((w @ ?pl) @ replicate (m - py * rt) 0, iT + py * rt, iS + sy * rs)
       = Some ((w @ ?pl) @ concat (padded_planes db el rs rt sy py raw (iS + sy * rs) k)
                 @ replicate (m - py * rt - k * (py * rt)) 0,
               iT + py * rt + k * (py * rt), iS + sy * rs + k * (sy * rs))"
    using Suc.prems lpl by (intro Suc.IH) simp_all
  then show ?case unfolding step padded_planes_shift by (simp add: add.assoc)
qed

lemma length_concat_padded_planes:
  assumes "iS + k * (sy * rs) \<le> length raw"
    and rs: "rs \<le> rt" and sy: "sy \<le> py"
    and cl: "\<not> db \<and> rs < rt \<Longrightarrow> el \<le> rs \<and> rs + el \<le> rt"
    and yl: "sy < py \<Longrightarrow> 0 < sy"
  shows "length (concat (padded_planes db el rs rt sy py raw iS k)) = k * (py * rt)"
  using assms(1)
proof (induction k)
  case 0
  then show ?case by (simp add: padded_planes_def)
next
  case (Suc k)
  have "iS + k * (sy * rs) + sy * rs \<le> length raw" using Suc.prems by (simp add: add.assoc)
  then have "length (concat (padded_plane db el rs rt sy py raw (iS + k * (sy * rs)))) = py * rt"
    using rs sy cl yl by (rule length_concat_padded_plane)
  moreover have "length (concat (padded_planes db el rs rt sy py raw iS k)) = k * (py * rt)"
    using Suc by simp
  ultimately show ?case by (simp add: padded_planes_Suc)
qed

lemma pad_planes_rest: "sz \<le> pz \<Longrightarrow> pz * L - sz * L = (pz - sz) * (L::nat)"
  by (simp add: diff_mult_distrib)

lemma PadData_padded_volume:
  assumes x: "s0 \<le> p0" and y: "s1 \<le> p1" and z: "s2 \<le> p2"
    and p: "NextPow2 s0 = p0" "NextPow2 s1 = p1" "NextPow2 s2 = p2"
    and xl: "\<not> db \<and> s0 < p0 \<Longrightarrow> 0 < s0"
    and yl: "s1 < p1 \<Longrightarrow> 0 < s1"
    and zl: "\<not> db \<and> s2 < p2 \<Longrightarrow> 0 < s2"
    and raw: "s2 * (s1 * (s0 * (bw div 8 * cc))) \<le> length raw"
    and alloc: "new_succeeds pf (p0 * (bw div 8 * cc) * p1 * p2)"
  shows "PadData pf db raw (s0, s1, s2) bw cc
       = Inr (Some (padded_volume db (bw div 8 * cc) (s0 * (bw div 8 * cc)) (p0 * (bw div 8 * cc))
                      s1 p1 s2 p2 raw), (p0, p1, p2))"
proof -
  define el where "el = bw div 8 * cc"
  define rs where "rs = s0 * el"
  define rt where "rt = p0 * el"
  have rsrt: "rs \<le> rt" unfolding rs_def rt_def using x by (rule mult_le_mono1)
  have cl: "el \<le> rs \<and> rs + el \<le> rt" if c: "\<not> db \<and> rs < rt"
  proof -
    from c have "s0 < p0" unfolding rs_def rt_def by (cases "s0 < p0") auto
    with c xl have s0: "0 < s0" "Suc s0 \<le> p0" by simp_all
    have "el * 1 \<le> el * s0" using s0(1) by (intro mult_le_mono2) simp
    then have a: "el \<le> rs" by (simp add: rs_def mult.commute)
    have "Suc s0 * el \<le> p0 * el" using s0(2) by (rule mult_le_mono1)
    then have b: "rs + el \<le> rt" by (simp add: rs_def rt_def)
    from a b show ?thesis ..
  qed
  have total: "rt * p1 * p2 = s2 * (p1 * rt) + (p2 - s2) * (p1 * rt)"
  proof -
    have "s2 * (p1 * rt) + (p2 - s2) * (p1 * rt) = (s2 + (p2 - s2)) * (p1 * rt)"
      by (simp only: add_mult_distrib)
    also have "\<dots> = p2 * (p1 * rt)" using z by simp
    also have "\<dots> = rt * p1 * p2" by (simp add: ac_simps)
    finally show ?thesis by simp
  qed
  have src: "0 + s2 * (s1 * rs) \<le> length raw" using raw by (simp add: rs_def el_def)
  have m: "s2 * (p1 * rt) \<le> rt * p1 * p2" using total by simp
  have planes: "PadData_planes s2 db el rs rt s1 p1 raw (replicate (rt * p1 * p2) 0, 0, 0)
       = Some (concat (padded_planes db el rs rt s1 p1 raw 0 s2)
                 @ replicate ((p2 - s2) * (p1 * rt)) 0, s2 * (p1 * rt), s2 * (s1 * rs))"
    using PadData_planes_append [of "[]" 0 s2 p1 rt "rt * p1 * p2" 0 s1 rs raw db el,
        OF _ m src rsrt y cl yl] total by simp
  have lpl: "length (concat (padded_planes db el rs rt s1 p1 raw 0 s2)) = s2 * (p1 * rt)"
    using src rsrt y cl yl by (rule length_concat_padded_planes)
  have fin: "(if \<not> db \<and> p2 > s2
        then (if p1 * rt \<le> s2 * (p1 * rt)
              then (case memcpy_within (concat (padded_planes db el rs rt s1 p1 raw 0 s2)
                            @ replicate ((p2 - s2) * (p1 * rt)) 0) (s2 * (p1 * rt))
                          (s2 * (p1 * rt) - p1 * rt) (p1 * rt) of
                      None \<Rightarrow> Inl Undefined
                    | Some clamped \<Rightarrow> Inr (Some clamped, (p0, p1, p2)))
              else Inl Undefined)
        else Inr (Some (concat (padded_planes db el rs rt s1 p1 raw 0 s2)
                          @ replicate ((p2 - s2) * (p1 * rt)) 0), (p0, p1, p2)))
      = Inr (Some (padded_volume db el rs rt s1 p1 s2 p2 raw), (p0, p1, p2))"
  proof (cases "\<not> db \<and> s2 < p2")
    case False
    then have nc: "(\<not> db \<and> s2 < p2) = False" by simp
    show ?thesis by (simp add: nc padded_volume_def)
  next
    case True
    then have c: "(\<not> db \<and> s2 < p2) = True" by simp
    from zl [OF True] obtain j where j: "s2 = Suc j" by (cases s2) auto
    let ?a = "concat (padded_planes db el rs rt s1 p1 raw 0 s2)"
    have n1: "p1 * rt \<le> s2 * (p1 * rt)" using j by simp
    have lt: "s2 < p2" using True by simp
    have rest: "(p2 - s2) * (p1 * rt) = p1 * rt + (p2 - s2 - 1) * (p1 * rt)"
      using lt by (rule pad_gap)
    have n2: "p1 * rt \<le> (p2 - s2) * (p1 * rt)" using rest by simp
    have mw: "memcpy_within (?a @ replicate ((p2 - s2) * (p1 * rt)) 0) (s2 * (p1 * rt))
                (s2 * (p1 * rt) - p1 * rt) (p1 * rt)
          = Some (?a @ drop (s2 * (p1 * rt) - p1 * rt) ?a
                    @ replicate ((p2 - s2) * (p1 * rt) - p1 * rt) 0)"
      using lpl n1 n2 by (rule memcpy_within_append)
    have "0 + j * (s1 * rs) \<le> length raw" using src j by simp
    then have "length (concat (padded_planes db el rs rt s1 p1 raw 0 j)) = j * (p1 * rt)"
      using rsrt y cl yl by (rule length_concat_padded_planes)
    then have dl: "drop (s2 * (p1 * rt) - p1 * rt) ?a
          = concat (padded_plane db el rs rt s1 p1 raw ((s2 - 1) * (s1 * rs)))"
      using j by (simp add: padded_planes_Suc)
    have zz: "(p2 - s2) * (p1 * rt) - p1 * rt = (p2 - s2 - 1) * (p1 * rt)" using rest by simp
    show ?thesis
      unfolding c if_True mw dl zz using n1 by (simp add: padded_volume_def c)
  qed
  have alloc': "new_succeeds pf (rt * p1 * p2)" using alloc by (simp add: rt_def el_def)
  have "PadData pf db raw (s0, s1, s2) bw cc
      = (if \<not> new_succeeds pf (rt * p1 * p2) then Inr (None, (p0, p1, p2))
         else (case PadData_planes s2 db el rs rt s1 p1 raw (replicate (rt * p1 * p2) 0, 0, 0) of
                 None \<Rightarrow> Inl Undefined
               | Some (planes, iTarget, iSource) \<Rightarrow>
                   if \<not> db \<and> p2 > s2
                   then (if p1 * rt \<le> iTarget
                         then (case memcpy_within planes iTarget (iTarget - p1 * rt) (p1 * rt) of
                                 None \<Rightarrow> Inl Undefined
                               | Some clamped \<Rightarrow> Inr (Some clamped, (p0, p1, p2)))
                         else Inl Undefined)
                   else Inr (Some planes, (p0, p1, p2))))"
    unfolding PadData_def Let_def prod.case p el_def [symmetric] rs_def [symmetric]
      rt_def [symmetric]
    by (rule refl)
  also have "\<dots> = (if \<not> db \<and> p2 > s2
        then (if p1 * rt \<le> s2 * (p1 * rt)
              then (case memcpy_within (concat (padded_planes db el rs rt s1 p1 raw 0 s2)
                            @ replicate ((p2 - s2) * (p1 * rt)) 0) (s2 * (p1 * rt))
                          (s2 * (p1 * rt) - p1 * rt) (p1 * rt) of
                      None \<Rightarrow> Inl Undefined
                    | Some clamped \<Rightarrow> Inr (Some clamped, (p0, p1, p2)))
              else Inl Undefined)
        else Inr (Some (concat (padded_planes db el rs rt s1 p1 raw 0 s2)
                          @ replicate ((p2 - s2) * (p1 * rt)) 0), (p0, p1, p2)))"
    by (simp only: alloc' planes not_True_eq_False if_False option.case prod.case)
  also note fin
  finally show ?thesis by (simp only: el_def rs_def rt_def)
qed

section \<open>Padding a power-of-two brick\<close>

lemma bytes_at_nested: "b + c \<le> L \<Longrightarrow> bytes_at (bytes_at xs a L) b c = bytes_at xs (a + b) c"
proof -
  assume h: "b + c \<le> L"
  have "take c (drop b (take L (drop a xs))) = take c (take (L - b) (drop b (drop a xs)))"
    by (simp only: drop_take)
  also have "\<dots> = take c (drop (a + b) xs)"
    using h by (simp add: min_def add.commute)
  finally show ?thesis by (simp only: bytes_at_def)
qed

lemma block_concat:
  assumes "\<And>b. b \<in> set bs \<Longrightarrow> length b = L" and "i < length bs"
  shows "bytes_at (concat bs @ rest) (i * L) L = bs ! i"
  using assms
proof (induction bs arbitrary: i)
  case Nil
  then show ?case by simp
next
  case (Cons b bs)
  have lb: "length b = L" using Cons.prems(1) by simp
  show ?case
  proof (cases i)
    case 0
    then show ?thesis using lb by (simp add: bytes_at_def)
  next
    case (Suc j)
    have "bytes_at (concat bs @ rest) (j * L) L = bs ! j"
      using Cons.prems Suc by (intro Cons.IH) simp_all
    then show ?thesis using lb Suc by (simp add: bytes_at_def)
  qed
qed

lemma concat_bytes_at:
  "iS + k * L \<le> length raw \<Longrightarrow>
   concat (map (\<lambda>j. bytes_at raw (iS + j * L) L) [0..<k]) = bytes_at raw iS (k * L)"
proof (induction k)
  case 0
  then show ?case by (simp add: bytes_at_def)
next
  case (Suc k)
  then have "concat (map (\<lambda>j. bytes_at raw (iS + j * L) L) [0..<k]) = bytes_at raw iS (k * L)"
    by simp
  moreover have "take (k * L) (drop iS raw) @ take L (drop (iS + k * L) raw)
        = take (Suc k * L) (drop iS raw)"
  proof -
    have "drop (k * L) (drop iS raw) = drop (iS + k * L) raw" by (simp add: add.commute)
    then have "take (k * L) (drop iS raw) @ take L (drop (iS + k * L) raw)
        = take (k * L + L) (drop iS raw)" by (simp only: take_add)
    then show ?thesis by (simp add: add.commute)
  qed
  ultimately show ?case by (simp add: bytes_at_def)
qed

lemma bytes_at_append: "bytes_at raw iS a @ bytes_at raw (iS + a) b = bytes_at raw iS (a + b)"
proof -
  have "drop a (drop iS raw) = drop (iS + a) raw" by (simp add: add.commute)
  then have "take a (drop iS raw) @ take b (drop (iS + a) raw) = take (a + b) (drop iS raw)"
    by (simp only: take_add)
  then show ?thesis by (simp only: bytes_at_def)
qed

lemma padded_row_same: "padded_row db el rs rs row = row"
  by (simp add: padded_row_def)

lemma padded_rows_same:
  "iS + k * rs \<le> length raw \<Longrightarrow>
   concat (padded_rows db el rs rs raw iS k) = bytes_at raw iS (k * rs)"
  unfolding padded_rows_def padded_row_same by (rule concat_bytes_at)

lemma padded_plane_same:
  "iS + sy * rs \<le> length raw \<Longrightarrow>
   concat (padded_plane db el rs rs sy sy raw iS) = bytes_at raw iS (sy * rs)"
  by (simp add: padded_plane_def padded_rows_same)

lemma padded_planes_same:
  "iS + k * (sy * rs) \<le> length raw \<Longrightarrow>
   concat (padded_planes db el rs rs sy sy raw iS k) = bytes_at raw iS (k * (sy * rs))"
proof (induction k)
  case 0
  then show ?case by (simp add: padded_planes_def bytes_at_def)
next
  case (Suc k)
  have "iS + k * (sy * rs) + sy * rs \<le> length raw" using Suc.prems by (simp add: add.assoc)
  then have "concat (padded_plane db el rs rs sy sy raw (iS + k * (sy * rs)))
      = bytes_at raw (iS + k * (sy * rs)) (sy * rs)" by (rule padded_plane_same)
  moreover have "concat (padded_planes db el rs rs sy sy raw iS k) = bytes_at raw iS (k * (sy * rs))"
    using Suc by simp
  moreover have "bytes_at raw iS (k * (sy * rs)) @ bytes_at raw (iS + k * (sy * rs)) (sy * rs)
      = bytes_at raw iS (Suc k * (sy * rs))"
    using bytes_at_append [of raw iS "k * (sy * rs)" "sy * rs"] by (simp add: add.commute)
  ultimately show ?case by (simp only: padded_planes_Suc concat_append concat.simps append_Nil2)
qed

lemma padded_volume_same:
  "length raw = sz * (sy * rs) \<Longrightarrow> padded_volume db el rs rs sy sy sz sz raw = raw"
  using padded_planes_same [of 0 sz sy rs raw db el]
  by (simp add: padded_volume_def bytes_at_def)

text \<open>
  C8: for an input whose three dimensions are powers of two (and whose buffer holds
  exactly the voxels of that size), the padding transform is the identity: the output
  has the same dimensions and the same bytes as the input, for both values of the
  border flag.
\<close>

theorem PadData_power_of_two_identity:
  assumes "i0 \<le> 32" "i1 \<le> 32" "i2 \<le> 32"
    and len: "length raw = 2 ^ i2 * (2 ^ i1 * (2 ^ i0 * (bw div 8 * cc)))"
    and alloc: "new_succeeds pf (2 ^ i0 * (bw div 8 * cc) * 2 ^ i1 * 2 ^ i2)"
  shows "PadData pf db raw (2 ^ i0, 2 ^ i1, 2 ^ i2) bw cc = Inr (Some raw, (2 ^ i0, 2 ^ i1, 2 ^ i2))"
proof -
  have "PadData pf db raw (2 ^ i0, 2 ^ i1, 2 ^ i2) bw cc
       = Inr (Some (padded_volume db (bw div 8 * cc) (2 ^ i0 * (bw div 8 * cc))
                      (2 ^ i0 * (bw div 8 * cc)) (2 ^ i1) (2 ^ i1) (2 ^ i2) (2 ^ i2) raw),
              (2 ^ i0, 2 ^ i1, 2 ^ i2))"
    using assms by (intro PadData_padded_volume NextPow2_pow2) simp_all
  then show ?thesis using len by (simp only: padded_volume_same)
qed

theorem PadData_power_of_two_identity_witness:
  "PadData (pc 0) False [1, 2, 3, 4] (2, 2, 1) 8 1 = Inr (Some [1, 2, 3, 4], (2, 2, 1))
   \<and> PadData (pc 0) True [1, 2, 3, 4] (2, 2, 1) 8 1 = Inr (Some [1, 2, 3, 4], (2, 2, 1))"
  using PadData_power_of_two_identity [of 1 1 0 "[1, 2, 3, 4]" 8 1 "pc 0" False]
    PadData_power_of_two_identity [of 1 1 0 "[1, 2, 3, 4]" 8 1 "pc 0" True]
  by (simp add: pc_def)

section \<open>Replication at the border\<close>

lemma length_padded_rows: "length (padded_rows db el rs rt raw iS k) = k"
  by (simp add: padded_rows_def)

lemma nth_padded_rows:
  "j < k \<Longrightarrow> padded_rows db el rs rt raw iS k ! j
     = padded_row db el rs rt (bytes_at raw (iS + j * rs) rs)"
  by (simp add: padded_rows_def)

lemma blocks_padded_rows:
  assumes src: "iS + k * rs \<le> length raw" and rs: "rs \<le> rt"
    and cl: "\<not> db \<and> rs < rt \<Longrightarrow> el \<le> rs \<and> rs + el \<le> rt"
    and b: "b \<in> set (padded_rows db el rs rt raw iS k)"
  shows "length b = rt"
proof -
  from b obtain j where j: "j < k" and bj: "b = padded_row db el rs rt (bytes_at raw (iS + j * rs) rs)"
    by (auto simp: padded_rows_def)
  have "Suc j * rs \<le> k * rs" using j by (intro mult_le_mono1) simp
  then have "iS + j * rs + rs \<le> length raw" using src by simp
  then have "length (bytes_at raw (iS + j * rs) rs) = rs" by (rule length_bytes_at)
  then show ?thesis unfolding bj using rs cl by (intro length_padded_row) auto
qed

lemma blocks_padded_plane:
  assumes src: "iS + sy * rs \<le> length raw" and rs: "rs \<le> rt"
    and cl: "\<not> db \<and> rs < rt \<Longrightarrow> el \<le> rs \<and> rs + el \<le> rt"
    and yl: "sy < py \<Longrightarrow> 0 < sy"
    and b: "b \<in> set (padded_plane db el rs rt sy py raw iS)"
  shows "length b = rt"
proof (cases "sy < py")
  case False
  then have "padded_plane db el rs rt sy py raw iS = padded_rows db el rs rt raw iS sy"
    by (simp add: padded_plane_def)
  with b have "b \<in> set (padded_rows db el rs rt raw iS sy)" by simp
  with src rs cl show ?thesis by (rule blocks_padded_rows)
next
  case True
  then have "padded_plane db el rs rt sy py raw iS
      = padded_rows db el rs rt raw iS sy
        @ clamp_row db el rs rt sy raw iS # replicate (py - sy - 1) (replicate rt 0)"
    by (simp add: padded_plane_def)
  with b consider "b \<in> set (padded_rows db el rs rt raw iS sy)"
    | "b = clamp_row db el rs rt sy raw iS"
    | "b \<in> set (replicate (py - sy - 1) (replicate rt (0::byte)))"
    by auto
  then show ?thesis
  proof cases
    case 1
    with src rs cl show ?thesis by (rule blocks_padded_rows)
  next
    case 2
    then show ?thesis using length_clamp_row [OF src rs yl [OF True] cl] by simp
  next
    case 3
    then have "b = replicate rt 0" by simp
    then show ?thesis by simp
  qed
qed

lemma row_of_padded_plane:
  assumes src: "iS + sy * rs \<le> length raw" and rs: "rs \<le> rt"
    and cl: "\<not> db \<and> rs < rt \<Longrightarrow> el \<le> rs \<and> rs + el \<le> rt"
    and yl: "sy < py \<Longrightarrow> 0 < sy"
    and y: "y < sy"
  shows "bytes_at (concat (padded_plane db el rs rt sy py raw iS)) (y * rt) rt
         = padded_row db el rs rt (bytes_at raw (iS + y * rs) rs)"
proof -
  have "y < length (padded_plane db el rs rt sy py raw iS)"
    using y by (simp add: padded_plane_def length_padded_rows)
  then have "bytes_at (concat (padded_plane db el rs rt sy py raw iS) @ []) (y * rt) rt
        = padded_plane db el rs rt sy py raw iS ! y"
    using blocks_padded_plane [OF src rs cl yl] by (intro block_concat) auto
  moreover have "padded_plane db el rs rt sy py raw iS ! y
        = padded_row db el rs rt (bytes_at raw (iS + y * rs) rs)"
    using y by (simp add: padded_plane_def nth_append length_padded_rows nth_padded_rows)
  ultimately show ?thesis by simp
qed

lemma clamp_row_of_padded_plane:
  assumes src: "iS + sy * rs \<le> length raw" and rs: "rs \<le> rt"
    and cl: "\<not> db \<and> rs < rt \<Longrightarrow> el \<le> rs \<and> rs + el \<le> rt"
    and yl: "sy < py \<Longrightarrow> 0 < sy"
    and lt: "sy < py"
  shows "bytes_at (concat (padded_plane db el rs rt sy py raw iS)) (sy * rt) rt
         = clamp_row db el rs rt sy raw iS"
proof -
  have "sy < length (padded_plane db el rs rt sy py raw iS)"
    using lt by (simp add: padded_plane_def length_padded_rows)
  then have "bytes_at (concat (padded_plane db el rs rt sy py raw iS) @ []) (sy * rt) rt
        = padded_plane db el rs rt sy py raw iS ! sy"
    using blocks_padded_plane [OF src rs cl yl] by (intro block_concat) auto
  moreover have "padded_plane db el rs rt sy py raw iS ! sy = clamp_row db el rs rt sy raw iS"
    using lt by (simp add: padded_plane_def nth_append length_padded_rows)
  ultimately show ?thesis by simp
qed

lemma plane_of_padded_volume:
  assumes src: "sz * (sy * rs) \<le> length raw" and rs: "rs \<le> rt" and sy: "sy \<le> py"
    and cl: "\<not> db \<and> rs < rt \<Longrightarrow> el \<le> rs \<and> rs + el \<le> rt"
    and yl: "sy < py \<Longrightarrow> 0 < sy"
    and z: "z < sz"
  shows "bytes_at (padded_volume db el rs rt sy py sz pz raw) (z * (py * rt)) (py * rt)
         = concat (padded_plane db el rs rt sy py raw (z * (sy * rs)))"
proof -
  have len: "length b = py * rt" if b: "b \<in> set (padded_planes db el rs rt sy py raw 0 sz)" for b
  proof -
    from b obtain i where i: "i < sz"
      and bi: "b = concat (padded_plane db el rs rt sy py raw (i * (sy * rs)))"
      by (auto simp: padded_planes_def)
    have "Suc i * (sy * rs) \<le> sz * (sy * rs)" using i by (intro mult_le_mono1) simp
    then have "i * (sy * rs) + sy * rs \<le> length raw" using src by simp
    then show ?thesis unfolding bi using rs sy cl yl by (rule length_concat_padded_plane)
  qed
  have "z < length (padded_planes db el rs rt sy py raw 0 sz)"
    using z by (simp add: padded_planes_def)
  then have "bytes_at (concat (padded_planes db el rs rt sy py raw 0 sz)
               @ (if \<not> db \<and> sz < pz
                  then concat (padded_plane db el rs rt sy py raw ((sz - 1) * (sy * rs)))
                       @ replicate ((pz - sz - 1) * (py * rt)) 0
                  else replicate ((pz - sz) * (py * rt)) 0)) (z * (py * rt)) (py * rt)
        = padded_planes db el rs rt sy py raw 0 sz ! z"
    using len by (intro block_concat) auto
  moreover have "padded_planes db el rs rt sy py raw 0 sz ! z
        = concat (padded_plane db el rs rt sy py raw (z * (sy * rs)))"
    using z by (simp add: padded_planes_def)
  ultimately show ?thesis by (simp only: padded_volume_def)
qed

lemma clamp_plane_of_padded_volume:
  assumes src: "sz * (sy * rs) \<le> length raw" and rs: "rs \<le> rt" and sy: "sy \<le> py"
    and cl: "\<not> db \<and> rs < rt \<Longrightarrow> el \<le> rs \<and> rs + el \<le> rt"
    and yl: "sy < py \<Longrightarrow> 0 < sy"
    and nb: "\<not> db" and lt: "sz < pz" and sz: "0 < sz"
  shows "bytes_at (padded_volume db el rs rt sy py sz pz raw) (sz * (py * rt)) (py * rt)
         = concat (padded_plane db el rs rt sy py raw ((sz - 1) * (sy * rs)))"
proof -
  let ?a = "concat (padded_planes db el rs rt sy py raw 0 sz)"
  let ?pl = "concat (padded_plane db el rs rt sy py raw ((sz - 1) * (sy * rs)))"
  have la: "length ?a = sz * (py * rt)"
    using length_concat_padded_planes [of 0 sz sy rs raw rt py db el] src rs sy cl yl by simp
  from sz obtain j where j: "sz = Suc j" by (cases sz) auto
  have "j * (sy * rs) + sy * rs \<le> length raw" using src j by simp
  then have lp: "length ?pl = py * rt"
    using rs sy cl yl j by (simp add: length_concat_padded_plane)
  have c: "(\<not> db \<and> sz < pz) = True" using nb lt by simp
  have "padded_volume db el rs rt sy py sz pz raw
        = ?a @ ?pl @ replicate ((pz - sz - 1) * (py * rt)) 0"
    by (simp only: padded_volume_def c if_True)
  then show ?thesis using la lp by (simp add: bytes_at_def)
qed

lemma Suc_mult_le: "x < n \<Longrightarrow> x * L + L \<le> n * (L::nat)"
proof -
  assume "x < n"
  then have "Suc x * L \<le> n * L" by (intro mult_le_mono1) simp
  then show ?thesis by simp
qed

lemma voxel_via_rows:
  assumes x: "x < p0" and y: "y < p1"
  shows "voxel out (p0, p1, p2) el (x, y, z)
       = bytes_at (bytes_at (bytes_at out (z * (p1 * (p0 * el))) (p1 * (p0 * el)))
                     (y * (p0 * el)) (p0 * el)) (x * el) el"
proof -
  have a: "x * el + el \<le> p0 * el" using x by (rule Suc_mult_le)
  have b: "y * (p0 * el) + p0 * el \<le> p1 * (p0 * el)" using y by (rule Suc_mult_le)
  have "bytes_at (bytes_at (bytes_at out (z * (p1 * (p0 * el))) (p1 * (p0 * el)))
                     (y * (p0 * el)) (p0 * el)) (x * el) el
      = bytes_at (bytes_at out (z * (p1 * (p0 * el)) + y * (p0 * el)) (p0 * el)) (x * el) el"
    using b by (simp only: bytes_at_nested)
  also have "\<dots> = bytes_at out (z * (p1 * (p0 * el)) + y * (p0 * el) + x * el) el"
    using a by (simp only: bytes_at_nested)
  also have "z * (p1 * (p0 * el)) + y * (p0 * el) + x * el = ((z * p1 + y) * p0 + x) * el"
    by (simp add: algebra_simps)
  finally show ?thesis by (simp add: voxel_def)
qed

lemma bytes_at_prefix: "off + n \<le> length xs \<Longrightarrow> bytes_at (xs @ ys) off n = bytes_at xs off n"
  by (simp add: bytes_at_def)

lemma padded_row_inside:
  "length row = rs \<Longrightarrow> off + n \<le> rs \<Longrightarrow>
   bytes_at (padded_row db el rs rt row) off n = bytes_at row off n"
  unfolding padded_row_def by (rule bytes_at_prefix) simp

lemma padded_row_clamp:
  assumes l: "length row = rs" and el: "el \<le> rs" and lt: "rs < rt"
  shows "bytes_at (padded_row False el rs rt row) rs el = bytes_at row (rs - el) el"
proof -
  have c: "(\<not> False \<and> rs < rt) = True" using lt by simp
  have "padded_row False el rs rt row = row @ drop (rs - el) row @ replicate (rt - rs - el) 0"
    by (simp only: padded_row_def c if_True)
  moreover have "length (drop (rs - el) row) = el" using l el by simp
  ultimately show ?thesis using l by (simp add: bytes_at_def)
qed

text \<open>
  C2, as the code has it: with the border enabled, the padded buffer keeps every source
  voxel, and along each axis whose padded dimension is larger than the source dimension
  the first padding layer repeats its neighbour: the voxel at \<open>x = vSize.x\<close> of
  every source row equals the last voxel of that row, the row \<open>y = vSize.y\<close>
  of every source plane equals the padded row before it, and the plane
  \<open>z = vSize.z\<close> equals the padded plane before it.
\<close>

theorem PadData_clamps_first_layer:
  assumes pos: "0 < s0" "0 < s1" "0 < s2"
    and fit: "s0 \<le> 2 ^ 32" "s1 \<le> 2 ^ 32" "s2 \<le> 2 ^ 32"
    and raw: "s2 * (s1 * (s0 * (bw div 8 * cc))) \<le> length raw"
    and alloc: "new_succeeds pf (NextPow2 s0 * (bw div 8 * cc) * NextPow2 s1 * NextPow2 s2)"
  shows "\<exists>out. PadData pf False raw (s0, s1, s2) bw cc
                 = Inr (Some out, (NextPow2 s0, NextPow2 s1, NextPow2 s2))
           \<and> (\<forall>x < s0. \<forall>y < s1. \<forall>z < s2.
                 voxel out (NextPow2 s0, NextPow2 s1, NextPow2 s2) (bw div 8 * cc) (x, y, z)
                 = voxel raw (s0, s1, s2) (bw div 8 * cc) (x, y, z))
           \<and> (s0 < NextPow2 s0 \<longrightarrow>
                (\<forall>y < s1. \<forall>z < s2.
                   voxel out (NextPow2 s0, NextPow2 s1, NextPow2 s2) (bw div 8 * cc) (s0, y, z)
                   = voxel raw (s0, s1, s2) (bw div 8 * cc) (s0 - 1, y, z)))
           \<and> (s1 < NextPow2 s1 \<longrightarrow>
                (\<forall>x < NextPow2 s0. \<forall>z < s2.
                   voxel out (NextPow2 s0, NextPow2 s1, NextPow2 s2) (bw div 8 * cc) (x, s1, z)
                   = voxel out (NextPow2 s0, NextPow2 s1, NextPow2 s2) (bw div 8 * cc) (x, s1 - 1, z)))
           \<and> (s2 < NextPow2 s2 \<longrightarrow>
                (\<forall>x < NextPow2 s0. \<forall>y < NextPow2 s1.
                   voxel out (NextPow2 s0, NextPow2 s1, NextPow2 s2) (bw div 8 * cc) (x, y, s2)
                   = voxel out (NextPow2 s0, NextPow2 s1, NextPow2 s2) (bw div 8 * cc) (x, y, s2 - 1)))"
proof -
  define el where "el = bw div 8 * cc"
  define p0 where "p0 = NextPow2 s0"
  define p1 where "p1 = NextPow2 s1"
  define p2 where "p2 = NextPow2 s2"
  define rs where "rs = s0 * el"
  define rt where "rt = p0 * el"
  define out where "out = padded_volume False el rs rt s1 p1 s2 p2 raw"
  have x: "s0 \<le> p0" and y: "s1 \<le> p1" and z: "s2 \<le> p2"
    unfolding p0_def p1_def p2_def using fit by (simp_all add: NextPow2_ge)
  have pad: "PadData pf False raw (s0, s1, s2) bw cc = Inr (Some out, (p0, p1, p2))"
    unfolding out_def el_def rs_def rt_def
    using x y z pos raw alloc
    by (intro PadData_padded_volume) (simp_all add: p0_def p1_def p2_def el_def)
  have rsrt: "rs \<le> rt" unfolding rs_def rt_def using x by (rule mult_le_mono1)
  have cl: "el \<le> rs \<and> rs + el \<le> rt" if c: "\<not> False \<and> rs < rt"
  proof -
    from c have "s0 < p0" unfolding rs_def rt_def by (cases "s0 < p0") auto
    then have s: "Suc s0 \<le> p0" by simp
    have "el * 1 \<le> el * s0" using pos(1) by (intro mult_le_mono2) simp
    then have a: "el \<le> rs" by (simp add: rs_def mult.commute)
    have "Suc s0 * el \<le> p0 * el" using s by (rule mult_le_mono1)
    then have b: "rs + el \<le> rt" by (simp add: rs_def rt_def)
    from a b show ?thesis ..
  qed
  have yl: "s1 < p1 \<Longrightarrow> 0 < s1" using pos(2) by simp
  have src: "s2 * (s1 * rs) \<le> length raw" using raw by (simp add: rs_def el_def)
  have plane_src: "k * (s1 * rs) + s1 * rs \<le> length raw" if "k < s2" for k
  proof -
    have "k * (s1 * rs) + s1 * rs \<le> s2 * (s1 * rs)" using that by (rule Suc_mult_le)
    then show ?thesis using src by (rule order_trans)
  qed
  have row_src: "k * (s1 * rs) + j * rs + rs \<le> length raw" if "k < s2" "j < s1" for k j
  proof -
    have "j * rs + rs \<le> s1 * rs" using that(2) by (rule Suc_mult_le)
    then have "k * (s1 * rs) + j * rs + rs \<le> k * (s1 * rs) + s1 * rs" by simp
    then show ?thesis using plane_src [OF that(1)] by (rule order_trans)
  qed
  have plane: "bytes_at out (k * (p1 * rt)) (p1 * rt)
      = concat (padded_plane False el rs rt s1 p1 raw (k * (s1 * rs)))" if "k < s2" for k
    unfolding out_def using src rsrt y cl yl that by (rule plane_of_padded_volume)
  have row: "bytes_at (bytes_at out (k * (p1 * rt)) (p1 * rt)) (j * rt) rt
      = padded_row False el rs rt (bytes_at raw (k * (s1 * rs) + j * rs) rs)"
    if k: "k < s2" and j: "j < s1" for k j
    unfolding plane [OF k]
    using plane_src [OF k] rsrt cl yl j by (rule row_of_padded_plane)
  have lrow: "length (bytes_at raw (k * (s1 * rs) + j * rs) rs) = rs"
    if k: "k < s2" and j: "j < s1" for k j
    using row_src [OF k j] by (rule length_bytes_at)
  have vox: "voxel out (p0, p1, p2) el (i, j, k)
      = bytes_at (bytes_at (bytes_at out (k * (p1 * rt)) (p1 * rt)) (j * rt) rt) (i * el) el"
    if "i < p0" "j < p1" for i j k
    unfolding rt_def using that by (rule voxel_via_rows)
  have src_vox: "bytes_at (bytes_at raw (k * (s1 * rs) + j * rs) rs) (i * el) el
      = voxel raw (s0, s1, s2) el (i, j, k)" if i: "i < s0" for i j k
  proof -
    have "i * el + el \<le> rs" unfolding rs_def using i by (rule Suc_mult_le)
    then have "bytes_at (bytes_at raw (k * (s1 * rs) + j * rs) rs) (i * el) el
        = bytes_at raw (k * (s1 * rs) + j * rs + i * el) el" by (rule bytes_at_nested)
    moreover have "k * (s1 * rs) + j * rs + i * el = ((k * s1 + j) * s0 + i) * el"
      by (simp add: rs_def algebra_simps)
    ultimately show ?thesis by (simp add: voxel_def)
  qed
  have inside: "voxel out (p0, p1, p2) el (i, j, k) = voxel raw (s0, s1, s2) el (i, j, k)"
    if i: "i < s0" and j: "j < s1" and k: "k < s2" for i j k
  proof -
    have ip: "i < p0" and jp: "j < p1" using i j x y by simp_all
    have "i * el + el \<le> rs" unfolding rs_def using i by (rule Suc_mult_le)
    then have "bytes_at (padded_row False el rs rt (bytes_at raw (k * (s1 * rs) + j * rs) rs)) (i * el) el
        = bytes_at (bytes_at raw (k * (s1 * rs) + j * rs) rs) (i * el) el"
      using lrow [OF k j] by (intro padded_row_inside)
    then show ?thesis by (simp only: vox [OF ip jp] row [OF k j] src_vox [OF i])
  qed
  have xclamp: "voxel out (p0, p1, p2) el (s0, j, k) = voxel raw (s0, s1, s2) el (s0 - 1, j, k)"
    if lt: "s0 < p0" and j: "j < s1" and k: "k < s2" for j k
  proof (cases "el = 0")
    case True
    then show ?thesis by (simp add: voxel_def bytes_at_def)
  next
    case False
    have jp: "j < p1" using j y by simp
    have rl: "rs < rt" unfolding rs_def rt_def using lt False by simp
    from cl rl have e: "el \<le> rs" by simp
    have a: "bytes_at (padded_row False el rs rt (bytes_at raw (k * (s1 * rs) + j * rs) rs)) rs el
        = bytes_at (bytes_at raw (k * (s1 * rs) + j * rs) rs) (rs - el) el"
      using lrow [OF k j] e rl by (rule padded_row_clamp)
    have b: "rs - el = (s0 - 1) * el" by (simp add: rs_def diff_mult_distrib)
    have "s0 - 1 < s0" using pos(1) by simp
    then have c: "bytes_at (bytes_at raw (k * (s1 * rs) + j * rs) rs) ((s0 - 1) * el) el
        = voxel raw (s0, s1, s2) el (s0 - 1, j, k)" by (rule src_vox)
    have d: "s0 * el = rs" by (simp add: rs_def)
    show ?thesis by (simp only: vox [OF lt jp] row [OF k j] d a b c)
  qed
  have yclamp: "voxel out (p0, p1, p2) el (i, s1, k) = voxel out (p0, p1, p2) el (i, s1 - 1, k)"
    if lt: "s1 < p1" and i: "i < p0" and k: "k < s2" for i k
  proof -
    have j: "s1 - 1 < s1" using pos(2) by simp
    have jp: "s1 - 1 < p1" using j lt by simp
    have "bytes_at (bytes_at out (k * (p1 * rt)) (p1 * rt)) (s1 * rt) rt
        = clamp_row False el rs rt s1 raw (k * (s1 * rs))"
      unfolding plane [OF k]
      using plane_src [OF k] rsrt cl yl lt by (rule clamp_row_of_padded_plane)
    also have "\<dots> = padded_row False el rs rt (bytes_at raw (k * (s1 * rs) + (s1 - 1) * rs) rs)"
      by (simp add: clamp_row_def)
    also have "\<dots> = bytes_at (bytes_at out (k * (p1 * rt)) (p1 * rt)) ((s1 - 1) * rt) rt"
      by (simp only: row [OF k j])
    finally show ?thesis by (simp only: vox [OF i lt] vox [OF i jp])
  qed
  have zclamp: "voxel out (p0, p1, p2) el (i, j, s2) = voxel out (p0, p1, p2) el (i, j, s2 - 1)"
    if lt: "s2 < p2" and i: "i < p0" and j: "j < p1" for i j
  proof -
    have k: "s2 - 1 < s2" using pos(3) by simp
    have nb: "\<not> False" by simp
    have "bytes_at out (s2 * (p1 * rt)) (p1 * rt)
        = concat (padded_plane False el rs rt s1 p1 raw ((s2 - 1) * (s1 * rs)))"
      unfolding out_def using src rsrt y cl yl nb lt pos(3)
      by (rule clamp_plane_of_padded_volume)
    also have "\<dots> = bytes_at out ((s2 - 1) * (p1 * rt)) (p1 * rt)"
      by (simp only: plane [OF k])
    finally show ?thesis by (simp only: vox [OF i j])
  qed
  show ?thesis
    unfolding el_def [symmetric] p0_def [symmetric] p1_def [symmetric] p2_def [symmetric]
    using pad inside xclamp yclamp zclamp by blast
qed

theorem PadData_clamps_first_layer_witness:
  "(0::nat) < 3 \<and> length (map of_nat [0..<27] :: byte list) = 27
   \<and> (\<exists>out. PadData (pc 0) False (map of_nat [0..<27]) (3, 3, 3) 8 1
                 = Inr (Some out, (NextPow2 3, NextPow2 3, NextPow2 3))
           \<and> (\<forall>x < 3. \<forall>y < 3. \<forall>z < 3.
                 voxel out (NextPow2 3, NextPow2 3, NextPow2 3) (8 div 8 * 1) (x, y, z)
                 = voxel (map of_nat [0..<27]) (3, 3, 3) (8 div 8 * 1) (x, y, z))
           \<and> (3 < NextPow2 3 \<longrightarrow>
                (\<forall>y < 3. \<forall>z < 3.
                   voxel out (NextPow2 3, NextPow2 3, NextPow2 3) (8 div 8 * 1) (3, y, z)
                   = voxel (map of_nat [0..<27]) (3, 3, 3) (8 div 8 * 1) (3 - 1, y, z)))
           \<and> (3 < NextPow2 3 \<longrightarrow>
                (\<forall>x < NextPow2 3. \<forall>z < 3.
                   voxel out (NextPow2 3, NextPow2 3, NextPow2 3) (8 div 8 * 1) (x, 3, z)
                   = voxel out (NextPow2 3, NextPow2 3, NextPow2 3) (8 div 8 * 1) (x, 3 - 1, z)))
           \<and> (3 < NextPow2 3 \<longrightarrow>
                (\<forall>x < NextPow2 3. \<forall>y < NextPow2 3.
                   voxel out (NextPow2 3, NextPow2 3, NextPow2 3) (8 div 8 * 1) (x, y, 3)
                   = voxel out (NextPow2 3, NextPow2 3, NextPow2 3) (8 div 8 * 1) (x, y, 3 - 1))))"
proof -
  have "\<exists>out. PadData (pc 0) False (map of_nat [0..<27]) (3, 3, 3) 8 1
                 = Inr (Some out, (NextPow2 3, NextPow2 3, NextPow2 3))
           \<and> (\<forall>x < 3. \<forall>y < 3. \<forall>z < 3.
                 voxel out (NextPow2 3, NextPow2 3, NextPow2 3) (8 div 8 * 1) (x, y, z)
                 = voxel (map of_nat [0..<27]) (3, 3, 3) (8 div 8 * 1) (x, y, z))
           \<and> (3 < NextPow2 3 \<longrightarrow>
                (\<forall>y < 3. \<forall>z < 3.
                   voxel out (NextPow2 3, NextPow2 3, NextPow2 3) (8 div 8 * 1) (3, y, z)
                   = voxel (map of_nat [0..<27]) (3, 3, 3) (8 div 8 * 1) (3 - 1, y, z)))
           \<and> (3 < NextPow2 3 \<longrightarrow>
                (\<forall>x < NextPow2 3. \<forall>z < 3.
                   voxel out (NextPow2 3, NextPow2 3, NextPow2 3) (8 div 8 * 1) (x, 3, z)
                   = voxel out (NextPow2 3, NextPow2 3, NextPow2 3) (8 div 8 * 1) (x, 3 - 1, z)))
           \<and> (3 < NextPow2 3 \<longrightarrow>
                (\<forall>x < NextPow2 3. \<forall>y < NextPow2 3.
                   voxel out (NextPow2 3, NextPow2 3, NextPow2 3) (8 div 8 * 1) (x, y, 3)
                   = voxel out (NextPow2 3, NextPow2 3, NextPow2 3) (8 div 8 * 1) (x, y, 3 - 1)))"
    by (rule PadData_clamps_first_layer) (simp_all add: pc_def)
  then show ?thesis by simp
qed

text \<open>
  C2 as stated fails: a row of 5 one-byte voxels padded to 8 has its last voxel at
  \<open>x = 5\<close> only; the voxel at \<open>x = 6\<close> is zero, not the nearest
  in-bounds voxel.
\<close>

theorem PadData_far_padding_zero:
  "PadData (pc 0) False [1, 2, 3, 4, 5] (5, 1, 1) 8 1
     = Inr (Some [1, 2, 3, 4, 5, 5, 0, 0], (8, 1, 1))
   \<and> voxel [1, 2, 3, 4, 5, 5, 0, 0] (8, 1, 1) 1 (6, 0, 0) = [0]
   \<and> voxel [1, 2, 3, 4, 5] (5, 1, 1) 1 (4, 0, 0) = [5]"
  by code_simp

end
